theory Spec2Isabelle
  imports Complex_Main "HOL-Library.Monad_Syntax"
begin

section \<open>Student progress tracking: the data model\<close>

text \<open>
  The development embeds \<^verbatim>\<open>controllers/studentProgressController.ts\<close> and the
  \<^verbatim>\<open>studentProgressSchema\<close> of the models file. The handlers are functions from an
  environment (the clock reading and whether the table's calls throw), a request and the
  table to the table afterwards and the response.

  A finite JavaScript number is modelled as the rational it denotes, the two zeros as one
  number; a rational that is not a double stands for no number of the program. Where the
  code computes with numbers (the average score) the model rounds as IEEE 754 binary64 does.
\<close>

subsection \<open>Values of a JSON request body\<close>

text \<open>
  A field of \<^verbatim>\<open>req.body\<close> is any JSON value; a field the body does not have reads as
  \<^verbatim>\<open>undefined\<close>. Objects and arrays are one opaque value: the handlers only test them for
  truthiness and compare them with strings. \<open>JNum\<close> holds the finite numbers; a JSON numeral
  beyond the range of doubles parses to an infinity, \<open>JInfinity\<close>.
\<close>

datatype jsval =
  JUndefined | JNull | JBool bool | JNum rat | JInfinity | JStr string | JObject

fun truthy :: "jsval \<Rightarrow> bool" where
  "truthy JUndefined = False"
| "truthy JNull = False"
| "truthy (JBool b) = b"
| "truthy (JNum n) = (n \<noteq> 0)"
| "truthy JInfinity = True"
| "truthy (JStr s) = (s \<noteq> [])"
| "truthy JObject = True"

subsection \<open>The persisted record (the schema of the models file)\<close>

record lessonAccess =
  la_courseId :: string
  la_sectionId :: string
  la_chapterId :: string
  la_accessTimestamp :: string

record quizAttempt =
  qa_quizId :: string
  qa_courseId :: string
  qa_attemptTimestamp :: string
  qa_score :: rat
  qa_timeTaken :: "rat option"
  qa_completed :: bool

text \<open>The \<^verbatim>\<open>enum\<close> of the \<^verbatim>\<open>activityType\<close> attribute.\<close>

datatype activityType = Comment | Reply | Reaction

fun activityTypeName :: "activityType \<Rightarrow> string" where
  "activityTypeName Comment = ''Comment''"
| "activityTypeName Reply = ''Reply''"
| "activityTypeName Reaction = ''Reaction''"

record discussionActivity =
  da_courseId :: string
  da_sectionId :: "string option"
  da_chapterId :: "string option"
  da_activityType :: activityType
  da_commentId :: "string option"
  da_timestamp :: string

record studentProgress =
  userId :: string
  lessonAccessHistory :: "lessonAccess list"
  quizAttempts :: "quizAttempt list"
  discussionActivities :: "discussionActivity list"
  lastActive :: string

subsection \<open>The document in memory\<close>

text \<open>
  A handler pushes an object built from body fields onto a log of the document it holds,
  so a log entry in memory carries arbitrary JSON values until \<^verbatim>\<open>save\<close> checks the document
  against the schema.
\<close>

record lessonAccessDoc =
  lad_courseId :: jsval
  lad_sectionId :: jsval
  lad_chapterId :: jsval
  lad_accessTimestamp :: jsval

record quizAttemptDoc =
  qad_quizId :: jsval
  qad_courseId :: jsval
  qad_attemptTimestamp :: jsval
  qad_score :: jsval
  qad_timeTaken :: jsval
  qad_completed :: jsval

record discussionActivityDoc =
  dad_courseId :: jsval
  dad_sectionId :: jsval
  dad_chapterId :: jsval
  dad_activityType :: jsval
  dad_commentId :: jsval
  dad_timestamp :: jsval

record document =
  doc_userId :: string
  doc_lessonAccessHistory :: "lessonAccessDoc list"
  doc_quizAttempts :: "quizAttemptDoc list"
  doc_discussionActivities :: "discussionActivityDoc list"
  doc_lastActive :: string

text \<open>A stored record read back as a document.\<close>

fun optStr :: "string option \<Rightarrow> jsval" where
  "optStr None = JUndefined"
| "optStr (Some s) = JStr s"

fun optNum :: "rat option \<Rightarrow> jsval" where
  "optNum None = JUndefined"
| "optNum (Some n) = JNum n"

definition lessonAccess_doc :: "lessonAccess \<Rightarrow> lessonAccessDoc" where
  "lessonAccess_doc a =
     \<lparr>lad_courseId = JStr (la_courseId a), lad_sectionId = JStr (la_sectionId a),
      lad_chapterId = JStr (la_chapterId a),
      lad_accessTimestamp = JStr (la_accessTimestamp a)\<rparr>"

definition quizAttempt_doc :: "quizAttempt \<Rightarrow> quizAttemptDoc" where
  "quizAttempt_doc a =
     \<lparr>qad_quizId = JStr (qa_quizId a), qad_courseId = JStr (qa_courseId a),
      qad_attemptTimestamp = JStr (qa_attemptTimestamp a), qad_score = JNum (qa_score a),
      qad_timeTaken = optNum (qa_timeTaken a), qad_completed = JBool (qa_completed a)\<rparr>"

definition discussionActivity_doc :: "discussionActivity \<Rightarrow> discussionActivityDoc" where
  "discussionActivity_doc a =
     \<lparr>dad_courseId = JStr (da_courseId a), dad_sectionId = optStr (da_sectionId a),
      dad_chapterId = optStr (da_chapterId a),
      dad_activityType = JStr (activityTypeName (da_activityType a)),
      dad_commentId = optStr (da_commentId a), dad_timestamp = JStr (da_timestamp a)\<rparr>"

definition document_of :: "studentProgress \<Rightarrow> document" where
  "document_of p =
     \<lparr>doc_userId = userId p,
      doc_lessonAccessHistory = map lessonAccess_doc (lessonAccessHistory p),
      doc_quizAttempts = map quizAttempt_doc (quizAttempts p),
      doc_discussionActivities = map discussionActivity_doc (discussionActivities p),
      doc_lastActive = lastActive p\<rparr>"

subsection \<open>Schema conformance on save\<close>

text \<open>
  The attribute types of the schema: \<^verbatim>\<open>String\<close>, \<^verbatim>\<open>Number\<close> and \<^verbatim>\<open>Boolean\<close>, required or
  not, \<^verbatim>\<open>completed\<close> with default \<^verbatim>\<open>true\<close>, \<^verbatim>\<open>activityType\<close> with its \<^verbatim>\<open>enum\<close>. A value of
  another type does not conform, and \<^verbatim>\<open>save\<close> throws.

  \<^verbatim>\<open>save\<close> also throws for a number that cannot be stored: the client of the database
  refuses an infinity and a number beyond the safe integers (above
  \<^verbatim>\<open>Number.MAX_SAFE_INTEGER\<close> or below \<^verbatim>\<open>Number.MIN_SAFE_INTEGER\<close>), and the database refuses
  a number other than 0 of magnitude below \<^verbatim>\<open>1E-130\<close>.
\<close>

definition storableNumber :: "rat \<Rightarrow> bool" where
  "storableNumber n \<longleftrightarrow> \<bar>n\<bar> \<le> 9007199254740991 \<and> (n = 0 \<or> 1 / 10 ^ 130 \<le> \<bar>n\<bar>)"

fun requiredString :: "jsval \<Rightarrow> string option" where
  "requiredString (JStr s) = Some s"
| "requiredString _ = None"

fun optionalString :: "jsval \<Rightarrow> string option option" where
  "optionalString JUndefined = Some None"
| "optionalString (JStr s) = Some (Some s)"
| "optionalString _ = None"

fun requiredNumber :: "jsval \<Rightarrow> rat option" where
  "requiredNumber (JNum n) = (if storableNumber n then Some n else None)"
| "requiredNumber _ = None"

fun optionalNumber :: "jsval \<Rightarrow> rat option option" where
  "optionalNumber JUndefined = Some None"
| "optionalNumber (JNum n) = (if storableNumber n then Some (Some n) else None)"
| "optionalNumber _ = None"

fun booleanDefaultTrue :: "jsval \<Rightarrow> bool option" where
  "booleanDefaultTrue JUndefined = Some True"
| "booleanDefaultTrue (JBool b) = Some b"
| "booleanDefaultTrue _ = None"

fun requiredActivityType :: "jsval \<Rightarrow> activityType option" where
  "requiredActivityType (JStr s) =
     (if s = ''Comment'' then Some Comment
      else if s = ''Reply'' then Some Reply
      else if s = ''Reaction'' then Some Reaction
      else None)"
| "requiredActivityType _ = None"

definition lessonAccessSchema :: "lessonAccessDoc \<Rightarrow> lessonAccess option" where
  "lessonAccessSchema d = do {
     c \<leftarrow> requiredString (lad_courseId d);
     s \<leftarrow> requiredString (lad_sectionId d);
     ch \<leftarrow> requiredString (lad_chapterId d);
     t \<leftarrow> requiredString (lad_accessTimestamp d);
     Some \<lparr>la_courseId = c, la_sectionId = s, la_chapterId = ch, la_accessTimestamp = t\<rparr>
   }"

definition quizAttemptSchema :: "quizAttemptDoc \<Rightarrow> quizAttempt option" where
  "quizAttemptSchema d = do {
     q \<leftarrow> requiredString (qad_quizId d);
     c \<leftarrow> requiredString (qad_courseId d);
     t \<leftarrow> requiredString (qad_attemptTimestamp d);
     sc \<leftarrow> requiredNumber (qad_score d);
     tt \<leftarrow> optionalNumber (qad_timeTaken d);
     co \<leftarrow> booleanDefaultTrue (qad_completed d);
     Some \<lparr>qa_quizId = q, qa_courseId = c, qa_attemptTimestamp = t, qa_score = sc,
           qa_timeTaken = tt, qa_completed = co\<rparr>
   }"

definition discussionActivitySchema :: "discussionActivityDoc \<Rightarrow> discussionActivity option" where
  "discussionActivitySchema d = do {
     c \<leftarrow> requiredString (dad_courseId d);
     s \<leftarrow> optionalString (dad_sectionId d);
     ch \<leftarrow> optionalString (dad_chapterId d);
     a \<leftarrow> requiredActivityType (dad_activityType d);
     cm \<leftarrow> optionalString (dad_commentId d);
     t \<leftarrow> requiredString (dad_timestamp d);
     Some \<lparr>da_courseId = c, da_sectionId = s, da_chapterId = ch, da_activityType = a,
           da_commentId = cm, da_timestamp = t\<rparr>
   }"

fun arrayOf :: "('d \<Rightarrow> 'a option) \<Rightarrow> 'd list \<Rightarrow> 'a list option" where
  "arrayOf schema [] = Some []"
| "arrayOf schema (d # ds) = do {
     a \<leftarrow> schema d;
     as \<leftarrow> arrayOf schema ds;
     Some (a # as)
   }"

definition studentProgressSchema :: "document \<Rightarrow> studentProgress option" where
  "studentProgressSchema d = do {
     ls \<leftarrow> arrayOf lessonAccessSchema (doc_lessonAccessHistory d);
     qs \<leftarrow> arrayOf quizAttemptSchema (doc_quizAttempts d);
     ds \<leftarrow> arrayOf discussionActivitySchema (doc_discussionActivities d);
     Some \<lparr>userId = doc_userId d, lessonAccessHistory = ls, quizAttempts = qs,
           discussionActivities = ds, lastActive = doc_lastActive d\<rparr>
   }"

section \<open>The statistics aggregator\<close>

subsection \<open>The frequency object of \<^verbatim>\<open>getTopItems\<close>\<close>

text \<open>
  \<^verbatim>\<open>frequency\<close> is a plain object used as a dictionary, so three facts of the language
  decide what \<^verbatim>\<open>getTopItems\<close> returns:
  \<^item> reading \<^verbatim>\<open>frequency[value]\<close> for a name the object does not own finds the members of
    \<^verbatim>\<open>Object.prototype\<close>; they are truthy, and adding 1 to one concatenates its text with
    \<^verbatim>\<open>"1"\<close>. Assigning to \<^verbatim>\<open>__proto__\<close> calls the inherited setter, which ignores a
    primitive, and creates no property;
  \<^item> \<^verbatim>\<open>Object.entries\<close> lists the own properties whose names are array indices first, in
    ascending numeric order, and the other names after them in the order of creation;
  \<^item> \<^verbatim>\<open>Array.prototype.sort\<close> is stable, and takes a comparator result of \<^verbatim>\<open>NaN\<close> as 0.
  A count is therefore a number or, for an inherited name, a string.
\<close>

datatype jscount = CNum nat | CStr string

type_synonym jsobject = "(string \<times> jscount) list"

definition nativeFunction :: "string \<Rightarrow> string" where
  "nativeFunction name = ''function '' @ name @ ''() { [native code] }''"

definition objectPrototype :: "(string \<times> string) list" where
  "objectPrototype =
     [(''constructor'', nativeFunction ''Object''),
      (''__defineGetter__'', nativeFunction ''__defineGetter__''),
      (''__defineSetter__'', nativeFunction ''__defineSetter__''),
      (''hasOwnProperty'', nativeFunction ''hasOwnProperty''),
      (''__lookupGetter__'', nativeFunction ''__lookupGetter__''),
      (''__lookupSetter__'', nativeFunction ''__lookupSetter__''),
      (''isPrototypeOf'', nativeFunction ''isPrototypeOf''),
      (''propertyIsEnumerable'', nativeFunction ''propertyIsEnumerable''),
      (''toString'', nativeFunction ''toString''),
      (''valueOf'', nativeFunction ''valueOf''),
      (''__proto__'', ''[object Object]''),
      (''toLocaleString'', nativeFunction ''toLocaleString'')]"

definition inherited :: "string \<Rightarrow> bool" where
  "inherited name = (name \<in> set (map fst objectPrototype))"

text \<open>\<^verbatim>\<open>(frequency[value] || 0) + 1\<close>\<close>

definition increment :: "jsobject \<Rightarrow> string \<Rightarrow> jscount" where
  "increment frequency v =
     (case map_of frequency v of
        Some (CNum n) \<Rightarrow> CNum (n + 1)
      | Some (CStr s) \<Rightarrow> (if s = [] then CNum 1 else CStr (s @ ''1''))
      | None \<Rightarrow>
          (case map_of objectPrototype v of
             Some text \<Rightarrow> CStr (text @ ''1'')
           | None \<Rightarrow> CNum 1))"

text \<open>\<^verbatim>\<open>frequency[value] = c\<close>: an own property keeps its place, a new one goes last.\<close>

fun put :: "jsobject \<Rightarrow> string \<Rightarrow> jscount \<Rightarrow> jsobject" where
  "put [] k c = [(k, c)]"
| "put ((k', c') # rest) k c = (if k' = k then (k, c) # rest else (k', c') # put rest k c)"

definition assign :: "jsobject \<Rightarrow> string \<Rightarrow> jscount \<Rightarrow> jsobject" where
  "assign frequency v c = (if v = ''__proto__'' then frequency else put frequency v c)"

definition isDigit :: "char \<Rightarrow> bool" where
  "isDigit c = (48 \<le> (of_char c :: nat) \<and> (of_char c :: nat) \<le> 57)"

definition indexValue :: "string \<Rightarrow> nat" where
  "indexValue s = foldl (\<lambda>n c. 10 * n + (of_char c - 48)) 0 s"

text \<open>An array index: the canonical decimal text of an integer from 0 to \<open>2\<^sup>3\<^sup>2 - 2\<close>.\<close>

definition isArrayIndex :: "string \<Rightarrow> bool" where
  "isArrayIndex s =
     (s \<noteq> [] \<and> list_all isDigit s \<and> (s = ''0'' \<or> hd s \<noteq> CHR ''0'') \<and>
      indexValue s \<le> 4294967294)"

definition objectEntries :: "jsobject \<Rightarrow> (string \<times> jscount) list" where
  "objectEntries obj =
     sort_key (\<lambda>e. indexValue (fst e)) (filter (\<lambda>e. isArrayIndex (fst e)) obj) @
     filter (\<lambda>e. \<not> isArrayIndex (fst e)) obj"

text \<open>
  \<^verbatim>\<open>b.count - a.count\<close>, with \<^verbatim>\<open>NaN\<close> as \<open>None\<close>. The strings that arise as counts are the
  text of an inherited member followed by 1s, none of them the text of a number.
\<close>

fun subtract :: "jscount \<Rightarrow> jscount \<Rightarrow> int option" where
  "subtract (CNum b) (CNum a) = Some (int b - int a)"
| "subtract _ _ = None"

definition byCountDescending :: "(string \<times> jscount) \<Rightarrow> (string \<times> jscount) \<Rightarrow> int option" where
  "byCountDescending a b = subtract (snd b) (snd a)"

text \<open>
  The stable sort, as an insertion sort from the right: an element moves past the later
  elements that it compares greater than and stops at the first one that it does not, so
  elements that compare equal keep their order. This is the result of the sort whenever the
  comparator is consistent, as it is when every count is a number. With a comparator that is
  not consistent (a count that is a string) the language leaves the order to the engine's
  algorithm, which this function does not follow: its result is then not the program's.
\<close>

definition comparatorResult :: "int option \<Rightarrow> int" where
  "comparatorResult v = (case v of None \<Rightarrow> 0 | Some d \<Rightarrow> d)"

fun insertInto :: "('a \<Rightarrow> 'a \<Rightarrow> int option) \<Rightarrow> 'a \<Rightarrow> 'a list \<Rightarrow> 'a list" where
  "insertInto cmp x [] = [x]"
| "insertInto cmp x (y # ys) =
     (if comparatorResult (cmp x y) \<le> 0 then x # y # ys else y # insertInto cmp x ys)"

fun arraySort :: "('a \<Rightarrow> 'a \<Rightarrow> int option) \<Rightarrow> 'a list \<Rightarrow> 'a list" where
  "arraySort cmp [] = []"
| "arraySort cmp (x # xs) = insertInto cmp x (arraySort cmp xs)"

text \<open>
  The loop that counts, and the function. An element \<^verbatim>\<open>{value, count}\<close> of the result is the
  pair of the two.
\<close>

definition countFrequency :: "'a list \<Rightarrow> ('a \<Rightarrow> string) \<Rightarrow> jsobject" where
  "countFrequency array key =
     foldl (\<lambda>frequency item. assign frequency (key item) (increment frequency (key item)))
       [] array"

definition getTopItems :: "'a list \<Rightarrow> ('a \<Rightarrow> string) \<Rightarrow> nat \<Rightarrow> (string \<times> jscount) list" where
  "getTopItems array key limit =
     take limit (arraySort byCountDescending (objectEntries (countFrequency array key)))"

subsection \<open>Numbers and their arithmetic\<close>

text \<open>
  A number is a double: a finite one, an infinity or \<^verbatim>\<open>NaN\<close>. Sums and quotients are the exact
  results rounded to the nearest double.
\<close>

datatype number = Finite rat | PosInfinity | NegInfinity | NaN

text \<open>The number of binary digits of a natural number.\<close>

fun bitLength :: "nat \<Rightarrow> nat" where
  "bitLength n = (if n = 0 then 0 else Suc (bitLength (n div 2)))"

declare bitLength.simps [simp del]

text \<open>
  \<open>2\<^sup>k\<close>, and the binary exponent of a positive rational \<open>q\<close>: the \<open>e\<close> with
  \<open>2\<^sup>e \<le> q < 2\<^sup>e\<^sup>+\<^sup>1\<close>.
\<close>

definition pow2 :: "int \<Rightarrow> rat" where
  "pow2 k = (if 0 \<le> k then 2 ^ nat k else 1 / 2 ^ nat (- k))"

definition exponent :: "rat \<Rightarrow> int" where
  "exponent q =
     (if 1 \<le> q then int (bitLength (nat \<lfloor>q\<rfloor>)) - 1
      else - int (bitLength (nat (\<lceil>1 / q\<rceil> - 1))))"

text \<open>
  Rounding to the nearest double, ties to the even significand: a significand of 53 binary
  digits, the least exponent of a digit \<open>-1074\<close>, an infinity from \<open>2\<^sup>1\<^sup>0\<^sup>2\<^sup>4\<close> on.
\<close>

definition roundHalfEven :: "rat \<Rightarrow> int" where
  "roundHalfEven q =
     (let f = \<lfloor>q\<rfloor>; d = q - of_int f
      in if d < 1 / 2 then f else if 1 / 2 < d then f + 1 else if even f then f else f + 1)"

definition roundDouble :: "rat \<Rightarrow> number" where
  "roundDouble q =
     (if q = 0 then Finite 0
      else
        let p = max (exponent \<bar>q\<bar> - 52) (- 1074);
            r = of_int (roundHalfEven (q / pow2 p)) * pow2 p
        in if pow2 1024 \<le> \<bar>r\<bar> then (if 0 < q then PosInfinity else NegInfinity)
           else Finite r)"

text \<open>\<^verbatim>\<open>a + b\<close> on numbers, and \<^verbatim>\<open>a / n\<close> for a number \<open>a\<close> and a length \<open>n\<close>.\<close>

fun addDouble :: "number \<Rightarrow> number \<Rightarrow> number" where
  "addDouble (Finite a) (Finite b) = roundDouble (a + b)"
| "addDouble NaN _ = NaN"
| "addDouble _ NaN = NaN"
| "addDouble PosInfinity NegInfinity = NaN"
| "addDouble NegInfinity PosInfinity = NaN"
| "addDouble PosInfinity _ = PosInfinity"
| "addDouble _ PosInfinity = PosInfinity"
| "addDouble NegInfinity _ = NegInfinity"
| "addDouble _ NegInfinity = NegInfinity"

fun divideByCount :: "number \<Rightarrow> nat \<Rightarrow> number" where
  "divideByCount (Finite a) n =
     (if n = 0 then (if a = 0 then NaN else if 0 < a then PosInfinity else NegInfinity)
      else roundDouble (a / of_nat n))"
| "divideByCount PosInfinity n = PosInfinity"
| "divideByCount NegInfinity n = NegInfinity"
| "divideByCount NaN n = NaN"

subsection \<open>The statistics object\<close>

record discussionBreakdown =
  comments :: nat
  replies :: nat
  reactions :: nat

record statistics =
  totalLessonsAccessed :: nat
  uniqueLessonsAccessed :: nat
  totalQuizAttempts :: nat
  uniqueQuizAttempts :: nat
  averageQuizScore :: number
  totalDiscussionActivities :: nat
  discussionBreakdown :: discussionBreakdown
  mostAccessedCourses :: "(string \<times> jscount) list"
  stats_lastActive :: string

text \<open>The template literal \<^verbatim>\<open>`${access.courseId}:${access.sectionId}:${access.chapterId}`\<close>\<close>

definition lessonKey :: "lessonAccess \<Rightarrow> string" where
  "lessonKey access = la_courseId access @ '':'' @ la_sectionId access @ '':'' @ la_chapterId access"

text \<open>\<^verbatim>\<open>new Set(xs).size\<close>\<close>

definition setSize :: "'a list \<Rightarrow> nat" where
  "setSize xs = card (set xs)"

definition computeStatistics :: "studentProgress \<Rightarrow> statistics" where
  "computeStatistics progress =
     \<lparr>totalLessonsAccessed = length (lessonAccessHistory progress),
      uniqueLessonsAccessed = setSize (map lessonKey (lessonAccessHistory progress)),
      totalQuizAttempts = length (quizAttempts progress),
      uniqueQuizAttempts = setSize (map qa_quizId (quizAttempts progress)),
      averageQuizScore =
        (if length (quizAttempts progress) > 0
         then divideByCount
                (foldl (\<lambda>sum attempt. addDouble sum (Finite (qa_score attempt))) (Finite 0)
                  (quizAttempts progress))
                (length (quizAttempts progress))
         else Finite 0),
      totalDiscussionActivities = length (discussionActivities progress),
      discussionBreakdown =
        \<lparr>comments =
           length (filter (\<lambda>activity. activityTypeName (da_activityType activity) = ''Comment'')
             (discussionActivities progress)),
         replies =
           length (filter (\<lambda>activity. activityTypeName (da_activityType activity) = ''Reply'')
             (discussionActivities progress)),
         reactions =
           length (filter (\<lambda>activity. activityTypeName (da_activityType activity) = ''Reaction'')
             (discussionActivities progress))\<rparr>,
      mostAccessedCourses = getTopItems (lessonAccessHistory progress) la_courseId 5,
      stats_lastActive = lastActive progress\<rparr>"

section \<open>The request handlers\<close>

subsection \<open>Requests, responses and the table\<close>

text \<open>
  \<^verbatim>\<open>getAuth(req)\<close> is the identity the provider verified: an object whose \<^verbatim>\<open>userId\<close> is
  \<^verbatim>\<open>null\<close> for a caller that is not signed in. The \<^verbatim>\<open>requireAuth()\<close> middleware of the
  provider, which the application puts in front of the router, is not part of the embedding:
  the handlers are modelled as they answer a request that reaches them.
\<close>

record authObject =
  auth_userId :: "string option"

record request =
  params_userId :: string
  getAuth :: "authObject option"
  body :: "string \<rightharpoonup> jsval"

definition bodyField :: "request \<Rightarrow> string \<Rightarrow> jsval" where
  "bodyField req name = (case body req name of None \<Rightarrow> JUndefined | Some v \<Rightarrow> v)"

datatype thrown = StoreFailure | SchemaMismatch

datatype payload =
  NoData | ProgressData studentProgress | StatisticsData statistics | ErrorData thrown

record response =
  status :: nat
  message :: string
  data :: payload

text \<open>
  The table holds the stored items, at most one for a \<^verbatim>\<open>userId\<close> (its hash key); \<open>calls\<close>
  lists the calls of \<^verbatim>\<open>StudentProgress.get\<close> and \<^verbatim>\<open>save\<close> made so far. The environment of one
  request is the reading of the clock and whether the database makes \<^verbatim>\<open>get\<close> or \<^verbatim>\<open>save\<close>
  throw. The \<^verbatim>\<open>createdAt\<close> and \<^verbatim>\<open>updatedAt\<close> attributes that the schema's \<^verbatim>\<open>timestamps\<close>
  option adds to a stored item are left out.
\<close>

datatype storeCall = GetCall string | SaveCall string

record store =
  items :: "studentProgress list"
  calls :: "storeCall list"

record env =
  now :: string
  getThrows :: bool
  saveThrows :: bool

definition getItem :: "studentProgress list \<Rightarrow> string \<Rightarrow> studentProgress option" where
  "getItem its k = find (\<lambda>p. userId p = k) its"

definition putItem :: "studentProgress \<Rightarrow> studentProgress list \<Rightarrow> studentProgress list" where
  "putItem p its = p # filter (\<lambda>q. userId q \<noteq> userId p) its"

definition modelGet :: "env \<Rightarrow> string \<Rightarrow> store \<Rightarrow> store \<times> (thrown + studentProgress option)" where
  "modelGet e k s =
     (let s' = s\<lparr>calls := calls s @ [GetCall k]\<rparr>
      in if getThrows e then (s', Inl StoreFailure) else (s', Inr (getItem (items s) k)))"

definition save :: "env \<Rightarrow> document \<Rightarrow> store \<Rightarrow> store \<times> (thrown + studentProgress)" where
  "save e d s =
     (let s' = s\<lparr>calls := calls s @ [SaveCall (doc_userId d)]\<rparr>
      in case studentProgressSchema d of
           None \<Rightarrow> (s', Inl SchemaMismatch)
         | Some p \<Rightarrow>
             if saveThrows e then (s', Inl StoreFailure)
             else (s'\<lparr>items := putItem p (items s)\<rparr>, Inr p))"

definition accessDenied :: "request \<Rightarrow> bool" where
  "accessDenied req =
     (case getAuth req of
        None \<Rightarrow> True
      | Some auth \<Rightarrow> auth_userId auth \<noteq> Some (params_userId req))"

definition serverError :: "string \<Rightarrow> thrown \<Rightarrow> response" where
  "serverError msg err = \<lparr>status = 500, message = msg, data = ErrorData err\<rparr>"

subsection \<open>The five handlers\<close>

definition getStudentProgress :: "env \<Rightarrow> request \<Rightarrow> store \<Rightarrow> store \<times> response" where
  "getStudentProgress e req s =
     (if accessDenied req
      then (s, \<lparr>status = 403, message = ''Access denied'', data = NoData\<rparr>)
      else
        case modelGet e (params_userId req) s of
          (s1, Inl err) \<Rightarrow> (s1, serverError ''Error retrieving student progress'' err)
        | (s1, Inr None) \<Rightarrow>
            (let newProgress =
                   \<lparr>doc_userId = params_userId req, doc_lessonAccessHistory = [],
                    doc_quizAttempts = [], doc_discussionActivities = [],
                    doc_lastActive = now e\<rparr>
             in case save e newProgress s1 of
                  (s2, Inl err) \<Rightarrow> (s2, serverError ''Error retrieving student progress'' err)
                | (s2, Inr saved) \<Rightarrow>
                    (s2, \<lparr>status = 200, message = ''Student progress initialized'',
                          data = ProgressData saved\<rparr>))
        | (s1, Inr (Some progress)) \<Rightarrow>
            (s1, \<lparr>status = 200, message = ''Student progress retrieved successfully'',
                  data = ProgressData progress\<rparr>))"

definition recordLessonAccess :: "env \<Rightarrow> request \<Rightarrow> store \<Rightarrow> store \<times> response" where
  "recordLessonAccess e req s =
     (let courseId = bodyField req ''courseId''; sectionId = bodyField req ''sectionId'';
          chapterId = bodyField req ''chapterId''
      in if accessDenied req
         then (s, \<lparr>status = 403, message = ''Access denied'', data = NoData\<rparr>)
         else if \<not> truthy courseId \<or> \<not> truthy sectionId \<or> \<not> truthy chapterId
         then (s, \<lparr>status = 400,
                    message = ''Missing required fields: courseId, sectionId, and chapterId are required'',
                    data = NoData\<rparr>)
         else
           case modelGet e (params_userId req) s of
             (s1, Inl err) \<Rightarrow> (s1, serverError ''Error recording lesson access'' err)
           | (s1, Inr found) \<Rightarrow>
               (let currentTime = now e;
                    event = \<lparr>lad_courseId = courseId, lad_sectionId = sectionId,
                             lad_chapterId = chapterId,
                             lad_accessTimestamp = JStr currentTime\<rparr>;
                    progress =
                      (case found of
                         None \<Rightarrow>
                           \<lparr>doc_userId = params_userId req, doc_lessonAccessHistory = [event],
                            doc_quizAttempts = [], doc_discussionActivities = [],
                            doc_lastActive = currentTime\<rparr>
                       | Some p \<Rightarrow>
                           (document_of p)
                             \<lparr>doc_lessonAccessHistory :=
                                doc_lessonAccessHistory (document_of p) @ [event],
                              doc_lastActive := currentTime\<rparr>)
                in case save e progress s1 of
                     (s2, Inl err) \<Rightarrow> (s2, serverError ''Error recording lesson access'' err)
                   | (s2, Inr saved) \<Rightarrow>
                       (s2, \<lparr>status = 200, message = ''Lesson access recorded successfully'',
                             data = ProgressData saved\<rparr>)))"

definition recordQuizAttempt :: "env \<Rightarrow> request \<Rightarrow> store \<Rightarrow> store \<times> response" where
  "recordQuizAttempt e req s =
     (let quizId = bodyField req ''quizId''; courseId = bodyField req ''courseId'';
          score = bodyField req ''score''; timeTaken = bodyField req ''timeTaken'';
          completed = bodyField req ''completed''
      in if accessDenied req
         then (s, \<lparr>status = 403, message = ''Access denied'', data = NoData\<rparr>)
         else if \<not> truthy quizId \<or> \<not> truthy courseId \<or> score = JUndefined
         then (s, \<lparr>status = 400,
                    message = ''Missing required fields: quizId, courseId, and score are required'',
                    data = NoData\<rparr>)
         else
           case modelGet e (params_userId req) s of
             (s1, Inl err) \<Rightarrow> (s1, serverError ''Error recording quiz attempt'' err)
           | (s1, Inr found) \<Rightarrow>
               (let currentTime = now e;
                    event = \<lparr>qad_quizId = quizId, qad_courseId = courseId,
                             qad_attemptTimestamp = JStr currentTime, qad_score = score,
                             qad_timeTaken = timeTaken,
                             qad_completed =
                               (if completed \<noteq> JUndefined then completed else JBool True)\<rparr>;
                    progress =
                      (case found of
                         None \<Rightarrow>
                           \<lparr>doc_userId = params_userId req, doc_lessonAccessHistory = [],
                            doc_quizAttempts = [event], doc_discussionActivities = [],
                            doc_lastActive = currentTime\<rparr>
                       | Some p \<Rightarrow>
                           (document_of p)
                             \<lparr>doc_quizAttempts := doc_quizAttempts (document_of p) @ [event],
                              doc_lastActive := currentTime\<rparr>)
                in case save e progress s1 of
                     (s2, Inl err) \<Rightarrow> (s2, serverError ''Error recording quiz attempt'' err)
                   | (s2, Inr saved) \<Rightarrow>
                       (s2, \<lparr>status = 200, message = ''Quiz attempt recorded successfully'',
                             data = ProgressData saved\<rparr>)))"

definition validActivityTypes :: "jsval list" where
  "validActivityTypes = [JStr ''Comment'', JStr ''Reply'', JStr ''Reaction'']"

definition recordDiscussionActivity :: "env \<Rightarrow> request \<Rightarrow> store \<Rightarrow> store \<times> response" where
  "recordDiscussionActivity e req s =
     (let courseId = bodyField req ''courseId''; sectionId = bodyField req ''sectionId'';
          chapterId = bodyField req ''chapterId''; activityType = bodyField req ''activityType'';
          commentId = bodyField req ''commentId''
      in if accessDenied req
         then (s, \<lparr>status = 403, message = ''Access denied'', data = NoData\<rparr>)
         else if \<not> truthy courseId \<or> \<not> truthy activityType
         then (s, \<lparr>status = 400,
                    message = ''Missing required fields: courseId and activityType are required'',
                    data = NoData\<rparr>)
         else if activityType \<notin> set validActivityTypes
         then (s, \<lparr>status = 400,
                    message = ''Invalid activityType. Must be one of: Comment, Reply, Reaction'',
                    data = NoData\<rparr>)
         else
           case modelGet e (params_userId req) s of
             (s1, Inl err) \<Rightarrow> (s1, serverError ''Error recording discussion activity'' err)
           | (s1, Inr found) \<Rightarrow>
               (let currentTime = now e;
                    event = \<lparr>dad_courseId = courseId, dad_sectionId = sectionId,
                             dad_chapterId = chapterId, dad_activityType = activityType,
                             dad_commentId = commentId, dad_timestamp = JStr currentTime\<rparr>;
                    progress =
                      (case found of
                         None \<Rightarrow>
                           \<lparr>doc_userId = params_userId req, doc_lessonAccessHistory = [],
                            doc_quizAttempts = [], doc_discussionActivities = [event],
                            doc_lastActive = currentTime\<rparr>
                       | Some p \<Rightarrow>
                           (document_of p)
                             \<lparr>doc_discussionActivities :=
                                doc_discussionActivities (document_of p) @ [event],
                              doc_lastActive := currentTime\<rparr>)
                in case save e progress s1 of
                     (s2, Inl err) \<Rightarrow>
                       (s2, serverError ''Error recording discussion activity'' err)
                   | (s2, Inr saved) \<Rightarrow>
                       (s2, \<lparr>status = 200,
                             message = ''Discussion activity recorded successfully'',
                             data = ProgressData saved\<rparr>)))"

definition getStudentStatistics :: "env \<Rightarrow> request \<Rightarrow> store \<Rightarrow> store \<times> response" where
  "getStudentStatistics e req s =
     (if accessDenied req
      then (s, \<lparr>status = 403, message = ''Access denied'', data = NoData\<rparr>)
      else
        case modelGet e (params_userId req) s of
          (s1, Inl err) \<Rightarrow> (s1, serverError ''Error retrieving student statistics'' err)
        | (s1, Inr None) \<Rightarrow>
            (s1, \<lparr>status = 404, message = ''No progress data found for this student'',
                  data = NoData\<rparr>)
        | (s1, Inr (Some progress)) \<Rightarrow>
            (s1, \<lparr>status = 200, message = ''Student statistics retrieved successfully'',
                  data = StatisticsData (computeStatistics progress)\<rparr>))"

text \<open>The routes of the \<^verbatim>\<open>/progress\<close> router.\<close>

datatype route =
  GetProgress | PostLessonAccess | PostQuizAttempt | PostDiscussionActivity | GetStatistics

fun handle :: "route \<Rightarrow> env \<Rightarrow> request \<Rightarrow> store \<Rightarrow> store \<times> response" where
  "handle GetProgress = getStudentProgress"
| "handle PostLessonAccess = recordLessonAccess"
| "handle PostQuizAttempt = recordQuizAttempt"
| "handle PostDiscussionActivity = recordDiscussionActivity"
| "handle GetStatistics = getStudentStatistics"

section \<open>Vocabulary of the properties\<close>

text \<open>The identity the provider verified for the caller, if any.\<close>

definition verifiedIdentity :: "request \<Rightarrow> string option" where
  "verifiedIdentity req = (case getAuth req of None \<Rightarrow> None | Some auth \<Rightarrow> auth_userId auth)"

text \<open>The record the table holds for a user once a handler has run.\<close>

definition persistedAfter :: "store \<times> response \<Rightarrow> string \<Rightarrow> studentProgress option" where
  "persistedAfter result u = getItem (items (fst result)) u"

text \<open>A stored record that the schema accepts as it is: every record that \<^verbatim>\<open>save\<close> wrote.\<close>

definition conforms :: "studentProgress \<Rightarrow> bool" where
  "conforms p \<longleftrightarrow> studentProgressSchema (document_of p) = Some p"

text \<open>The arithmetic mean of a list of numbers, and the lesson an access is about.\<close>

definition arithmeticMean :: "rat list \<Rightarrow> rat" where
  "arithmeticMean xs = sum_list xs / of_nat (length xs)"

definition lessonTriple :: "lessonAccess \<Rightarrow> string \<times> string \<times> string" where
  "lessonTriple access = (la_courseId access, la_sectionId access, la_chapterId access)"

text \<open>
  The position of the first access to a course, and the order in which \<^verbatim>\<open>Object.entries\<close>
  lists two names of the frequency object: array indices by their numeric value and ahead
  of every other name, the other names by their first appearance.
\<close>

definition firstIndex :: "string list \<Rightarrow> string \<Rightarrow> nat" where
  "firstIndex ks k = length (takeWhile (\<lambda>x. x \<noteq> k) ks)"

definition listedBefore :: "string list \<Rightarrow> string \<Rightarrow> string \<Rightarrow> bool" where
  "listedBefore ks k k' =
     (if isArrayIndex k then \<not> isArrayIndex k' \<or> indexValue k < indexValue k'
      else \<not> isArrayIndex k' \<and> firstIndex ks k < firstIndex ks k')"

text \<open>
  The ranking of two course ids: the more frequent first, and of two equally frequent ones
  the one that \<^verbatim>\<open>Object.entries\<close> lists first.
\<close>

definition rankedBefore :: "string list \<Rightarrow> string \<Rightarrow> string \<Rightarrow> bool" where
  "rankedBefore ks k k' =
     (count_list ks k' < count_list ks k \<or>
      (count_list ks k' = count_list ks k \<and> listedBefore ks k k'))"

definition courseIds :: "studentProgress \<Rightarrow> string list" where
  "courseIds p = map la_courseId (lessonAccessHistory p)"

text \<open>
  The frequency object after the loop over accesses to the course ids \<open>ks\<close>, none of them an
  inherited name: one property per course id, in the order of first appearance, holding the
  number of accesses.
\<close>

definition counted :: "string list \<Rightarrow> jsobject \<Rightarrow> bool" where
  "counted ks F \<longleftrightarrow>
     sorted_wrt (\<lambda>x y. firstIndex ks x < firstIndex ks y) (map fst F) \<and>
     fst ` set F = set ks \<and>
     (\<forall>e \<in> set F. snd e = CNum (count_list ks (fst e)))"

text \<open>A decimal numeral without a leading zero.\<close>

definition noLeadingZero :: "string \<Rightarrow> bool" where
  "noLeadingZero s \<longleftrightarrow> list_all isDigit s \<and> (s = [] \<or> hd s \<noteq> CHR ''0'')"

subsection \<open>Concrete requests and tables\<close>

definition clock :: env where
  "clock = \<lparr>now = ''2024-05-01T10:00:00.000Z'', getThrows = False, saveThrows = False\<rparr>"

definition requestOf :: "string \<Rightarrow> string \<Rightarrow> (string \<times> jsval) list \<Rightarrow> request" where
  "requestOf caller u kvs =
     \<lparr>params_userId = u, getAuth = Some \<lparr>auth_userId = Some caller\<rparr>, body = map_of kvs\<rparr>"

definition lessonBody :: "(string \<times> jsval) list" where
  "lessonBody =
     [(''courseId'', JStr ''c1''), (''sectionId'', JStr ''s1''), (''chapterId'', JStr ''ch1'')]"



definition invalidBody :: "(string \<times> jsval) list" where
  "invalidBody = [(''courseId'', JStr ''c1''), (''activityType'', JStr ''Invalid'')]"



definition aliceProgress :: studentProgress where
  "aliceProgress =
     \<lparr>userId = ''alice'',
      lessonAccessHistory =
        [\<lparr>la_courseId = ''c0'', la_sectionId = ''s0'', la_chapterId = ''ch0'',
          la_accessTimestamp = ''2024-04-30T09:00:00.000Z''\<rparr>],
      quizAttempts = [], discussionActivities = [],
      lastActive = ''2024-04-30T09:00:00.000Z''\<rparr>"

definition aliceStore :: store where
  "aliceStore = \<lparr>items = [aliceProgress], calls = []\<rparr>"

definition emptyStore :: store where
  "emptyStore = \<lparr>items = [], calls = []\<rparr>"

definition attempt :: "rat \<Rightarrow> quizAttempt" where
  "attempt sc =
     \<lparr>qa_quizId = ''q1'', qa_courseId = ''c1'', qa_attemptTimestamp = ''2024-05-01T10:00:00.000Z'',
      qa_score = sc, qa_timeTaken = None, qa_completed = True\<rparr>"

definition threeAttempts :: studentProgress where
  "threeAttempts = aliceProgress\<lparr>quizAttempts := [attempt 80, attempt 90, attempt 100]\<rparr>"

definition oneOneTwo :: studentProgress where
  "oneOneTwo = aliceProgress\<lparr>quizAttempts := [attempt 1, attempt 1, attempt 2]\<rparr>"

text \<open>Three attempts with the scores \<^verbatim>\<open>0.1\<close>, \<^verbatim>\<open>0.2\<close> and \<^verbatim>\<open>0.3\<close>, as doubles.\<close>

definition tenths :: studentProgress where
  "tenths = aliceProgress\<lparr>quizAttempts :=
     [attempt (3602879701896397 / 36028797018963968),
      attempt (3602879701896397 / 18014398509481984),
      attempt (5404319552844595 / 18014398509481984)]\<rparr>"

definition lesson :: "string \<Rightarrow> string \<Rightarrow> string \<Rightarrow> lessonAccess" where
  "lesson c s ch =
     \<lparr>la_courseId = c, la_sectionId = s, la_chapterId = ch,
      la_accessTimestamp = ''2024-05-01T10:00:00.000Z''\<rparr>"

definition collidingProgress :: studentProgress where
  "collidingProgress =
     aliceProgress\<lparr>lessonAccessHistory := [lesson ''a:b'' ''c'' ''d'', lesson ''a'' ''b:c'' ''d'']\<rparr>"

definition sixAccesses :: studentProgress where
  "sixAccesses =
     aliceProgress\<lparr>lessonAccessHistory :=
       map (\<lambda>c. lesson c ''s1'' ''ch1'') [''A'', ''B'', ''A'', ''A'', ''C'', ''B'']\<rparr>"

definition tiedAccesses :: studentProgress where
  "tiedAccesses =
     aliceProgress\<lparr>lessonAccessHistory := map (\<lambda>c. lesson c ''s1'' ''ch1'') [''2'', ''1'']\<rparr>"

definition protoAccess :: studentProgress where
  "protoAccess =
     aliceProgress\<lparr>lessonAccessHistory := [lesson ''__proto__'' ''s1'' ''ch1'']\<rparr>"

section \<open>The table and the schema\<close>


lemma arrayOf_map: "(\<And>x. f (g x) = Some x) \<Longrightarrow> arrayOf f (map g xs) = Some xs"
  by (induction xs) auto

lemma lessonAccessSchema_doc: "lessonAccessSchema (lessonAccess_doc a) = Some a"
  by (simp add: lessonAccessSchema_def lessonAccess_doc_def)

lemma quizAttemptSchema_doc:
  "quizAttemptSchema d = Some a \<Longrightarrow> quizAttemptSchema (quizAttempt_doc a) = Some a"
  by (cases "qad_score d"; cases "qad_timeTaken d")
    (auto simp: quizAttemptSchema_def quizAttempt_doc_def split: bind_splits if_splits)

lemma requiredActivityType_name: "requiredActivityType (JStr (activityTypeName t)) = Some t"
  by (cases t) simp_all

lemma optionalString_optStr: "optionalString (optStr x) = Some x"
  by (cases x) simp_all

lemma discussionActivitySchema_doc: "discussionActivitySchema (discussionActivity_doc a) = Some a"
  by (simp add: discussionActivitySchema_def discussionActivity_doc_def
      requiredActivityType_name optionalString_optStr del: requiredActivityType.simps)

lemma arrayOf_again:
  assumes "arrayOf f ds = Some as" and "\<And>d a. f d = Some a \<Longrightarrow> f (g a) = Some a"
  shows "arrayOf f (map g as) = Some as"
  using assms(1)
proof (induction ds arbitrary: as)
  case Nil
  then show ?case by simp
next
  case (Cons d ds)
  then show ?case
    by (auto split: bind_splits dest: assms(2))
qed

text \<open>What \<^verbatim>\<open>save\<close> writes conforms, so every record of a table written by the handlers does.\<close>

lemma saved_conforms:
  assumes "studentProgressSchema d = Some p"
  shows "conforms p"
proof -
  from assms obtain ls qs ds where parts:
    "arrayOf quizAttemptSchema (doc_quizAttempts d) = Some qs"
    "p = \<lparr>userId = doc_userId d, lessonAccessHistory = ls, quizAttempts = qs,
          discussionActivities = ds, lastActive = doc_lastActive d\<rparr>"
    by (auto simp: studentProgressSchema_def split: bind_splits)
  from parts(1) have "arrayOf quizAttemptSchema (map quizAttempt_doc qs) = Some qs"
    by (rule arrayOf_again) (rule quizAttemptSchema_doc)
  then show ?thesis
    by (simp add: conforms_def parts(2) studentProgressSchema_def document_of_def arrayOf_map
        lessonAccessSchema_doc discussionActivitySchema_doc)
qed





lemma schema_new_lessonAccess:
  "lessonAccessSchema ev = Some a \<Longrightarrow>
   studentProgressSchema \<lparr>doc_userId = u, doc_lessonAccessHistory = [ev], doc_quizAttempts = [],
     doc_discussionActivities = [], doc_lastActive = t\<rparr> =
   Some \<lparr>userId = u, lessonAccessHistory = [a], quizAttempts = [], discussionActivities = [],
     lastActive = t\<rparr>"
  by (simp add: studentProgressSchema_def)



lemma getItem_putItem:
  "getItem (putItem p its) k = (if k = userId p then Some p else getItem its k)"
  by (induction its) (auto simp: getItem_def putItem_def)








text \<open>
  Conformance is an invariant of the table: \<^verbatim>\<open>save\<close> is the only writer, and it writes what the
  schema returned. So a record a handler finds in a table that only these handlers wrote
  conforms.
\<close>

lemma modelGet_items: "modelGet e k s = (s1, r) \<Longrightarrow> items s1 = items s"
  by (auto simp: modelGet_def Let_def split: if_splits)

lemma save_conforming:
  assumes "\<forall>p\<in>set (items s). conforms p" and "save e d s = (s2, r)"
  shows "\<forall>p\<in>set (items s2). conforms p"
proof (cases "studentProgressSchema d")
  case None
  with assms show ?thesis
    by (auto simp: save_def Let_def)
next
  case (Some p)
  then have "conforms p"
    by (rule saved_conforms)
  with assms Some show ?thesis
    by (auto simp: save_def Let_def putItem_def split: if_splits)
qed

lemma get_then_save_conforming:
  assumes "\<forall>p\<in>set (items s). conforms p"
  shows "\<forall>p\<in>set (items (fst (case modelGet e k s of
            (s1, Inl err) \<Rightarrow> (s1, f err)
          | (s1, Inr found) \<Rightarrow>
              (case save e (d found) s1 of
                 (s2, Inl err) \<Rightarrow> (s2, g err)
               | (s2, Inr saved) \<Rightarrow> (s2, h saved))))). conforms p"
proof -
  obtain s1 r where get: "modelGet e k s = (s1, r)"
    by (cases "modelGet e k s")
  then have s1: "\<forall>p\<in>set (items s1). conforms p"
    using assms modelGet_items [OF get] by simp
  show ?thesis
  proof (cases r)
    case (Inl err)
    with get s1 show ?thesis by simp
  next
    case (Inr found)
    obtain s2 r2 where sv: "save e (d found) s1 = (s2, r2)"
      by (cases "save e (d found) s1")
    from s1 sv have "\<forall>p\<in>set (items s2). conforms p"
      by (rule save_conforming)
    with get Inr sv show ?thesis
      by (cases r2) simp_all
  qed
qed

lemma handle_conforming:
  assumes "\<forall>p\<in>set (items s). conforms p"
  shows "\<forall>p\<in>set (items (fst (handle r e req s))). conforms p"
proof (cases r)
  case GetProgress
  obtain s1 r1 where get: "modelGet e (params_userId req) s = (s1, r1)"
    by (cases "modelGet e (params_userId req) s")
  then have s1: "\<forall>p\<in>set (items s1). conforms p"
    using assms modelGet_items [OF get] by simp
  obtain s2 r2 where sv: "save e \<lparr>doc_userId = params_userId req, doc_lessonAccessHistory = [],
      doc_quizAttempts = [], doc_discussionActivities = [], doc_lastActive = now e\<rparr> s1 = (s2, r2)"
    by (cases "save e \<lparr>doc_userId = params_userId req, doc_lessonAccessHistory = [],
      doc_quizAttempts = [], doc_discussionActivities = [], doc_lastActive = now e\<rparr> s1")
  from s1 sv have "\<forall>p\<in>set (items s2). conforms p"
    by (rule save_conforming)
  with GetProgress assms get s1 sv show ?thesis
    by (simp add: getStudentProgress_def Let_def split: sum.splits option.splits)
next
  case PostLessonAccess
  with assms show ?thesis
    by (simp add: recordLessonAccess_def Let_def) (intro impI conjI get_then_save_conforming assms)
next
  case PostQuizAttempt
  with assms show ?thesis
    by (simp add: recordQuizAttempt_def Let_def) (intro impI conjI get_then_save_conforming assms)
next
  case PostDiscussionActivity
  with assms show ?thesis
    by (simp add: recordDiscussionActivity_def Let_def) (intro impI conjI get_then_save_conforming assms)
next
  case GetStatistics
  obtain s1 r1 where get: "modelGet e (params_userId req) s = (s1, r1)"
    by (cases "modelGet e (params_userId req) s")
  then have s1: "\<forall>p\<in>set (items s1). conforms p"
    using assms modelGet_items [OF get] by simp
  with GetStatistics assms get show ?thesis
    by (simp add: getStudentStatistics_def split: sum.splits option.splits)
qed

section \<open>The access gate\<close>

lemma accessDenied_iff:
  "accessDenied req \<longleftrightarrow> verifiedIdentity req \<noteq> Some (params_userId req)"
  by (simp add: accessDenied_def verifiedIdentity_def split: option.splits)

text \<open>
  C6. On each of the five routes, a request whose verified identity is absent or is not the
  \<^verbatim>\<open>userId\<close> of the path is answered with status 403, and the table is as before: no item
  changed and no call of \<^verbatim>\<open>get\<close> or \<^verbatim>\<open>save\<close> made.
\<close>

theorem identity_mismatch_rejected:
  assumes "verifiedIdentity req \<noteq> Some (params_userId req)"
  shows "fst (handle route e req s) = s \<and> status (snd (handle route e req s)) = 403"
  using assms
  by (cases route)
    (simp_all add: accessDenied_iff getStudentProgress_def recordLessonAccess_def
      recordQuizAttempt_def recordDiscussionActivity_def getStudentStatistics_def Let_def)

theorem identity_mismatch_rejected_witness:
  "fst (handle PostLessonAccess clock (requestOf ''bob'' ''alice'' lessonBody) aliceStore) =
     aliceStore \<and>
   status (snd (handle PostLessonAccess clock (requestOf ''bob'' ''alice'' lessonBody) aliceStore)) =
     403"
proof -
  have "verifiedIdentity (requestOf ''bob'' ''alice'' lessonBody) \<noteq>
      Some (params_userId (requestOf ''bob'' ''alice'' lessonBody))"
    by (simp add: verifiedIdentity_def requestOf_def)
  then show ?thesis
    by (rule identity_mismatch_rejected)
qed

lemma requestOf_simps:
  "params_userId (requestOf caller u kvs) = u"
  "verifiedIdentity (requestOf caller u kvs) = Some caller"
  "bodyField (requestOf caller u kvs) name = (case map_of kvs name of None \<Rightarrow> JUndefined | Some v \<Rightarrow> v)"
  by (simp_all add: requestOf_def verifiedIdentity_def bodyField_def)

text \<open>
  C7. A discussion-activity submission by the authorized caller whose \<^verbatim>\<open>activityType\<close> is not
  one of \<^verbatim>\<open>Comment\<close>, \<^verbatim>\<open>Reply\<close>, \<^verbatim>\<open>Reaction\<close> is answered with status 400, and the table is
  as before: no call of \<^verbatim>\<open>get\<close> or \<^verbatim>\<open>save\<close> made, no item changed.
\<close>

theorem invalid_activityType_rejected:
  assumes "verifiedIdentity req = Some (params_userId req)"
    and "bodyField req ''activityType'' \<notin> {JStr ''Comment'', JStr ''Reply'', JStr ''Reaction''}"
  shows "fst (recordDiscussionActivity e req s) = s \<and>
         status (snd (recordDiscussionActivity e req s)) = 400"
  using assms
  by (simp add: accessDenied_iff recordDiscussionActivity_def validActivityTypes_def Let_def)

theorem invalid_activityType_rejected_witness:
  "fst (recordDiscussionActivity clock (requestOf ''alice'' ''alice'' invalidBody) aliceStore) =
     aliceStore \<and>
   status (snd (recordDiscussionActivity clock (requestOf ''alice'' ''alice'' invalidBody)
     aliceStore)) = 400"
  by (rule invalid_activityType_rejected) (simp_all add: requestOf_simps invalidBody_def)

section \<open>Reading: statistics and the lazily created record\<close>

text \<open>
  C8. For a statistics request by the authorized caller, when \<^verbatim>\<open>get\<close> does not throw: the
  status is 404 exactly when the table has no record for the user; when it has one, the
  response is 200 with the statistics computed from it; the items of the table are as before
  in both cases.
\<close>

theorem statistics_not_found_iff_no_record:
  assumes "verifiedIdentity req = Some (params_userId req)" and "\<not> getThrows e"
  shows "(status (snd (getStudentStatistics e req s)) = 404 \<longleftrightarrow>
            getItem (items s) (params_userId req) = None) \<and>
         (\<forall>p. getItem (items s) (params_userId req) = Some p \<longrightarrow>
            snd (getStudentStatistics e req s) =
              \<lparr>status = 200, message = ''Student statistics retrieved successfully'',
               data = StatisticsData (computeStatistics p)\<rparr>) \<and>
         items (fst (getStudentStatistics e req s)) = items s"
  using assms
  by (cases "getItem (items s) (params_userId req)")
    (simp_all add: accessDenied_iff getStudentStatistics_def modelGet_def Let_def)

theorem statistics_not_found_iff_no_record_witness:
  "status (snd (getStudentStatistics clock (requestOf ''alice'' ''alice'' []) emptyStore)) = 404 \<and>
   snd (getStudentStatistics clock (requestOf ''alice'' ''alice'' []) aliceStore) =
     \<lparr>status = 200, message = ''Student statistics retrieved successfully'',
      data = StatisticsData (computeStatistics aliceProgress)\<rparr> \<and>
   items (fst (getStudentStatistics clock (requestOf ''alice'' ''alice'' []) aliceStore)) =
     items aliceStore"
proof -
  let ?req = "requestOf ''alice'' ''alice'' []"
  have auth: "verifiedIdentity ?req = Some (params_userId ?req)"
    by (simp add: requestOf_simps)
  have env: "\<not> getThrows clock"
    by (simp add: clock_def)
  have none: "getItem (items emptyStore) (params_userId ?req) = None"
    by (simp add: emptyStore_def getItem_def)
  have some: "getItem (items aliceStore) (params_userId ?req) = Some aliceProgress"
    by (simp add: aliceStore_def getItem_def requestOf_simps aliceProgress_def)
  show ?thesis
    using statistics_not_found_iff_no_record [OF auth env, of emptyStore]
      statistics_not_found_iff_no_record [OF auth env, of aliceStore] none some
    by simp
qed

text \<open>
  C9. For a request for the progress of a user who has no record, by the authorized caller,
  when the table does not throw: the handler saves a new record with that \<^verbatim>\<open>userId\<close>, three
  empty logs and \<^verbatim>\<open>lastActive\<close> the current time, and returns it with status 200. A record
  with no event in it can therefore exist.
\<close>

theorem progress_created_on_first_read:
  assumes "verifiedIdentity req = Some (params_userId req)"
    and "getItem (items s) (params_userId req) = None"
    and "\<not> getThrows e" and "\<not> saveThrows e"
  shows "snd (getStudentProgress e req s) =
           \<lparr>status = 200, message = ''Student progress initialized'',
            data = ProgressData \<lparr>userId = params_userId req, lessonAccessHistory = [],
              quizAttempts = [], discussionActivities = [], lastActive = now e\<rparr>\<rparr> \<and>
         persistedAfter (getStudentProgress e req s) (params_userId req) =
           Some \<lparr>userId = params_userId req, lessonAccessHistory = [], quizAttempts = [],
             discussionActivities = [], lastActive = now e\<rparr>"
  using assms
  by (simp add: accessDenied_iff getStudentProgress_def modelGet_def save_def Let_def
      studentProgressSchema_def persistedAfter_def getItem_putItem)

theorem progress_created_on_first_read_witness:
  "persistedAfter (getStudentProgress clock (requestOf ''alice'' ''alice'' []) emptyStore) ''alice'' =
     Some \<lparr>userId = ''alice'', lessonAccessHistory = [], quizAttempts = [],
       discussionActivities = [], lastActive = ''2024-05-01T10:00:00.000Z''\<rparr>"
proof -
  let ?req = "requestOf ''alice'' ''alice'' []"
  have auth: "verifiedIdentity ?req = Some (params_userId ?req)"
    by (simp add: requestOf_simps)
  have none: "getItem (items emptyStore) (params_userId ?req) = None"
    by (simp add: emptyStore_def getItem_def)
  have env: "\<not> getThrows clock" "\<not> saveThrows clock"
    by (simp_all add: clock_def)
  show ?thesis
    using progress_created_on_first_read [OF auth none env]
    by (simp add: requestOf_simps clock_def)
qed

section \<open>Recording events\<close>







section \<open>The statistics\<close>

subsection \<open>Rounding\<close>

lemma bitLength_bounds:
  "0 < n \<Longrightarrow> 2 ^ (bitLength n - 1) \<le> n \<and> n < 2 ^ bitLength n"
proof (induction n rule: bitLength.induct)
  case (1 n)
  show ?case
  proof (cases "n div 2 = 0")
    case True
    with "1.prems" have n: "n = Suc 0" by (simp add: div_eq_0_iff)
    have "bitLength (Suc 0) = Suc 0"
      by (simp add: bitLength.simps [of "Suc 0"] bitLength.simps [of 0])
    with n show ?thesis
      by simp
  next
    case False
    with "1.IH" "1.prems"
    have IH: "2 ^ (bitLength (n div 2) - 1) \<le> n div 2" "n div 2 < 2 ^ bitLength (n div 2)"
      by simp_all
    have pos: "0 < bitLength (n div 2)"
      using False by (simp add: bitLength.simps [of "n div 2"])
    have b: "bitLength n = Suc (bitLength (n div 2))"
      using "1.prems" by (simp add: bitLength.simps [of n])
    have "2 ^ (bitLength n - 1) = 2 * 2 ^ (bitLength (n div 2) - 1)"
      using pos by (simp add: b flip: power_Suc)
    also have "\<dots> \<le> 2 * (n div 2)"
      using IH(1) by simp
    also have "\<dots> \<le> n"
      by simp
    finally have lower: "2 ^ (bitLength n - 1) \<le> n" .
    have "n < 2 * (n div 2) + 2"
      by presburger
    also have "\<dots> \<le> 2 * 2 ^ bitLength (n div 2)"
      using IH(2) by simp
    finally have "n < 2 ^ bitLength n"
      by (simp add: b)
    with lower show ?thesis ..
  qed
qed

lemma roundHalfEven_of_int: "roundHalfEven (of_int z) = z"
  by (simp add: roundHalfEven_def)

lemma pow2_pos: "0 < pow2 k"
  by (simp add: pow2_def)

lemma pow2_nonpos: "p \<le> 0 \<Longrightarrow> pow2 p = 1 / 2 ^ nat (- p)"
  by (cases "p = 0") (simp_all add: pow2_def)

lemma exponent_of_int: "0 < k \<Longrightarrow> exponent (of_int k) = int (bitLength (nat k)) - 1"
  by (simp add: exponent_def)

lemma rounded_exact:
  assumes "of_int k = of_int z * pow2 p" and "\<bar>k\<bar> \<le> 2 ^ 53" and "k \<noteq> 0"
    and "p = max (exponent \<bar>of_int k\<bar> - 52) (- 1074)"
  shows "roundDouble (of_int k) = Finite (of_int k)"
proof -
  have "of_int k / pow2 p = of_int z"
    using assms(1) pow2_pos [of p] by simp
  then have r: "of_int (roundHalfEven (of_int k / pow2 p)) * pow2 p = of_int k"
    using assms(1) by (simp add: roundHalfEven_of_int)
  have "\<bar>of_int k :: rat\<bar> \<le> 2 ^ 53"
    using assms(2) by (metis of_int_abs of_int_le_numeral_power_cancel_iff)
  also have "\<dots> < pow2 1024"
    by (simp add: pow2_def)
  finally have "\<not> pow2 1024 \<le> \<bar>of_int k :: rat\<bar>"
    by simp
  with r assms(3,4) show ?thesis
    by (simp add: roundDouble_def Let_def)
qed

lemma roundDouble_of_int:
  assumes "\<bar>k\<bar> \<le> 2 ^ 53"
  shows "roundDouble (of_int k) = Finite (of_int k)"
proof (cases "k = 0")
  case True
  then show ?thesis by (simp add: roundDouble_def)
next
  case False
  define a where "a = nat \<bar>k\<bar>"
  define p where "p = max (exponent \<bar>of_int k\<bar> - 52) (- 1074)"
  have a: "0 < a" "a \<le> 2 ^ 53"
    using False assms by (simp_all add: a_def nat_le_iff)
  have e: "exponent \<bar>of_int k\<bar> = int (bitLength a) - 1"
    using False exponent_of_int [of "\<bar>k\<bar>"] by (simp add: a_def)
  from bitLength_bounds [OF a(1)] have lower: "2 ^ (bitLength a - 1) \<le> a" ..
  from lower a(2) have "(2::nat) ^ (bitLength a - 1) \<le> 2 ^ 53"
    by (rule order_trans)
  moreover have "(1::nat) < 2"
    by simp
  ultimately have b: "bitLength a - 1 \<le> 53"
    by (rule power_le_imp_le_exp [rotated])
  show ?thesis
  proof (cases "bitLength a \<le> 53")
    case True
    then have "p \<le> 0"
      by (simp add: p_def e)
    then have "pow2 p = 1 / 2 ^ nat (- p)"
      by (rule pow2_nonpos)
    then have "of_int k = of_int (k * 2 ^ nat (- p)) * pow2 p"
      by simp
    then show ?thesis
      using assms False p_def by (rule rounded_exact)
  next
    case False
    with b have len: "bitLength a = 54"
      by simp
    with lower a(2) have "a = 2 ^ 53"
      by simp
    then have k: "\<bar>k\<bar> = 2 ^ 53"
      by (simp add: a_def nat_eq_iff)
    have p: "pow2 p = 2"
      by (simp add: p_def e len pow2_def)
    have "even \<bar>k\<bar>"
      unfolding k by (rule even_power [THEN iffD2]) simp
    then have "even k"
      by (simp only: dvd_abs_iff)
    then have "k = (k div 2) * 2"
      by (rule dvd_div_mult_self [symmetric])
    then have "(of_int k :: rat) = of_int ((k div 2) * 2)"
      by (rule arg_cong)
    also have "\<dots> = of_int (k div 2) * 2"
      by (simp only: of_int_mult of_int_numeral)
    finally have "of_int k = of_int (k div 2) * pow2 p"
      by (simp only: p)
    then show ?thesis
      using assms \<open>k \<noteq> 0\<close> p_def by (rule rounded_exact)
  qed
qed

lemma bitLength_small:
  "bitLength 0 = 0" "bitLength (Suc 0) = 1" "bitLength 2 = 2" "bitLength 3 = 2"
  by (simp_all add: bitLength.simps [of 0] bitLength.simps [of "Suc 0"] bitLength.simps [of 2]
      bitLength.simps [of 3] bitLength.simps [of 1])

lemma round_four_thirds: "roundDouble (4 / 3) = Finite (6004799503160661 / 4503599627370496)"
proof -
  have a: "\<bar>(4 :: rat) / 3\<bar> = 4 / 3"
    by simp
  have "\<lfloor>(4 :: rat) / 3\<rfloor> = 1"
    by (simp add: floor_eq_iff)
  then have e: "exponent (4 / 3) = 0"
    by (simp add: exponent_def bitLength_small)
  have pm: "max (0 - 52) (- 1074) = (- 52 :: int)"
    by simp
  have p: "pow2 (- 52) = 1 / 4503599627370496" "pow2 1024 = 2 ^ 1024"
    by (simp_all add: pow2_def)
  have "\<lfloor>(18014398509481984 :: rat) / 3\<rfloor> = 6004799503160661"
    by (simp add: floor_eq_iff)
  then have m: "roundHalfEven (4 / 3 / (1 / 4503599627370496)) = 6004799503160661"
    by (simp add: roundHalfEven_def Let_def)
  show ?thesis
    unfolding roundDouble_def Let_def a e pm p m by simp
qed

lemma sum_exact:
  "\<bar>z\<bar> + (\<Sum>k\<leftarrow>ks. \<bar>k\<bar>) \<le> 2 ^ 53 \<Longrightarrow>
   foldl (\<lambda>sum s. addDouble sum (Finite s)) (Finite (of_int z)) (map of_int ks) =
     Finite (of_int (z + sum_list ks))"
proof (induction ks arbitrary: z)
  case Nil
  then show ?case by simp
next
  case (Cons k ks)
  have nonneg: "0 \<le> (\<Sum>k\<leftarrow>ks. \<bar>k\<bar>)"
    by (rule sum_list_nonneg) auto
  have "\<bar>z + k\<bar> \<le> \<bar>z\<bar> + \<bar>k\<bar>"
    by (rule abs_triangle_ineq)
  with Cons.prems nonneg
  have step: "\<bar>z + k\<bar> + (\<Sum>k\<leftarrow>ks. \<bar>k\<bar>) \<le> 2 ^ 53" and small: "\<bar>z + k\<bar> \<le> 2 ^ 53"
    by simp_all
  have "addDouble (Finite (of_int z)) (Finite (of_int k)) = Finite (of_int (z + k))"
    using roundDouble_of_int [OF small] by simp
  with Cons.IH [OF step] show ?case
    by (simp add: add.assoc)
qed

text \<open>The exponent of a positive rational is its binary exponent, and the only one.\<close>

lemma pow2_Suc: "pow2 (k + 1) = 2 * pow2 k"
proof (cases "0 \<le> k")
  case True
  then have "nat (k + 1) = Suc (nat k)"
    by simp
  with True show ?thesis
    by (simp add: pow2_def)
next
  case False
  then have "nat (- k) = Suc (nat (- (k + 1)))"
    by simp
  with False show ?thesis
    by (cases "k = - 1") (simp_all add: pow2_def)
qed

lemma pow2_mono: "j \<le> k \<Longrightarrow> pow2 j \<le> pow2 k"
proof (induction "nat (k - j)" arbitrary: k)
  case 0
  then show ?case by simp
next
  case (Suc n)
  then have "n = nat ((k - 1) - j)" "j \<le> k - 1"
    by simp_all
  then have "pow2 j \<le> pow2 (k - 1)"
    by (rule Suc.hyps(1))
  also have "\<dots> \<le> 2 * pow2 (k - 1)"
    using pow2_pos [of "k - 1"] by simp
  also have "\<dots> = pow2 k"
    using pow2_Suc [of "k - 1"] by simp
  finally show ?case .
qed

lemma exponent_bounds:
  assumes "0 < q"
  shows "pow2 (exponent q) \<le> q \<and> q < pow2 (exponent q + 1)"
proof (cases "1 \<le> q")
  case True
  define n where "n = nat \<lfloor>q\<rfloor>"
  have n: "0 < n" "of_nat n \<le> q" "q < of_nat n + 1"
    using True by (simp_all add: n_def le_floor_iff) linarith+
  from bitLength_bounds [OF n(1)]
  have b: "2 ^ (bitLength n - 1) \<le> n" "n < 2 ^ bitLength n"
    by simp_all
  have pos: "0 < bitLength n"
    using n(1) by (simp add: bitLength.simps [of n])
  have e: "exponent q = int (bitLength n) - 1" "nat (int (bitLength n) - 1) = bitLength n - 1"
    using True pos by (simp_all add: exponent_def n_def)
  have "pow2 (exponent q) = of_nat (2 ^ (bitLength n - 1))"
    using pos by (simp add: e pow2_def)
  also have "\<dots> \<le> of_nat n"
    using b(1) by (simp only: of_nat_le_iff)
  finally have lower: "pow2 (exponent q) \<le> q"
    using n(2) by simp
  have "Suc n \<le> 2 ^ bitLength n"
    using b(2) by simp
  then have "(of_nat (Suc n) :: rat) \<le> of_nat (2 ^ bitLength n)"
    by (simp only: of_nat_le_iff)
  then have "of_nat n + 1 \<le> pow2 (exponent q + 1)"
    by (simp add: e pow2_def)
  with n(3) lower show ?thesis
    by simp
next
  case False
  define m where "m = nat (\<lceil>1 / q\<rceil> - 1)"
  have inv: "1 < 1 / q"
    using False assms by simp
  then have c: "2 \<le> \<lceil>1 / q\<rceil>"
    by (simp add: le_ceiling_iff)
  have m: "0 < m" "of_nat m < 1 / q" "1 / q \<le> of_nat m + 1"
  proof -
    show "0 < m"
      using c by (simp add: m_def)
    have "of_int (\<lceil>1 / q\<rceil> - 1) < 1 / q" "1 / q \<le> of_int (\<lceil>1 / q\<rceil> - 1) + 1"
      by (simp_all add: less_ceiling_iff [symmetric]) linarith+
    moreover have "0 \<le> \<lceil>1 / q\<rceil> - 1"
      using c by linarith
    then have "(of_nat m :: rat) = of_int (\<lceil>1 / q\<rceil> - 1)"
      unfolding m_def by (rule of_nat_nat)
    ultimately show "of_nat m < 1 / q" "1 / q \<le> of_nat m + 1"
      by simp_all
  qed
  from bitLength_bounds [OF m(1)]
  have b: "2 ^ (bitLength m - 1) \<le> m" "m < 2 ^ bitLength m"
    by simp_all
  have pos: "0 < bitLength m"
    using m(1) by (simp add: bitLength.simps [of m])
  have e: "exponent q = - int (bitLength m)"
    using False by (simp add: exponent_def m_def)
  have "Suc m \<le> 2 ^ bitLength m"
    using b(2) by simp
  then have "(of_nat (Suc m) :: rat) \<le> of_nat (2 ^ bitLength m)"
    by (simp only: of_nat_le_iff)
  then have "of_nat m + 1 \<le> (2 :: rat) ^ bitLength m"
    by simp
  with m(3) have "1 / q \<le> 2 ^ bitLength m"
    by (rule order_trans)
  then have "1 \<le> 2 ^ bitLength m * q"
    using assms by (simp add: field_simps)
  then have lower: "pow2 (exponent q) \<le> q"
    using pos by (simp add: e pow2_def field_simps)
  have "(2 :: rat) ^ (bitLength m - 1) = of_nat (2 ^ (bitLength m - 1))"
    by simp
  also have "\<dots> \<le> of_nat m"
    using b(1) by (simp only: of_nat_le_iff)
  also note m(2)
  finally have "2 ^ (bitLength m - 1) < 1 / q" .
  then have "q < 1 / 2 ^ (bitLength m - 1)"
    using assms by (simp add: field_simps)
  moreover have "pow2 (exponent q + 1) = 1 / 2 ^ (bitLength m - 1)"
  proof -
    have "- int (bitLength m) + 1 \<le> 0"
      using pos by simp
    then have "pow2 (- int (bitLength m) + 1) = 1 / 2 ^ nat (- (- int (bitLength m) + 1))"
      by (rule pow2_nonpos)
    moreover have "nat (- (- int (bitLength m) + 1)) = bitLength m - 1"
      by simp
    ultimately show ?thesis
      by (simp add: e)
  qed
  ultimately have "q < pow2 (exponent q + 1)"
    by (simp only:)
  with lower show ?thesis ..
qed

lemma exponent_unique:
  assumes "pow2 k \<le> q" and "q < pow2 (k + 1)"
  shows "exponent q = k"
proof -
  have q: "0 < q"
    using pow2_pos [of k] assms(1) by simp
  from exponent_bounds [OF q]
  have b: "pow2 (exponent q) \<le> q" "q < pow2 (exponent q + 1)"
    by simp_all
  have "\<not> k + 1 \<le> exponent q"
  proof
    assume "k + 1 \<le> exponent q"
    then have "pow2 (k + 1) \<le> pow2 (exponent q)"
      by (rule pow2_mono)
    with b(1) assms(2) show False
      by simp
  qed
  moreover have "\<not> exponent q + 1 \<le> k"
  proof
    assume "exponent q + 1 \<le> k"
    then have "pow2 (exponent q + 1) \<le> pow2 k"
      by (rule pow2_mono)
    with b(2) assms(1) show False
      by simp
  qed
  ultimately show ?thesis
    by simp
qed


lemma roundHalfEven_nearest: "\<bar>of_int (roundHalfEven q) - q\<bar> \<le> 1 / 2"
proof -
  have "of_int \<lfloor>q\<rfloor> \<le> q" "q < of_int \<lfloor>q\<rfloor> + 1"
    by linarith+
  then show ?thesis
    by (simp add: roundHalfEven_def Let_def abs_le_iff)
qed

lemma roundHalfEven_down: "of_int f \<le> q \<Longrightarrow> q - of_int f < 1 / 2 \<Longrightarrow> roundHalfEven q = f"
proof -
  assume a: "of_int f \<le> q" "q - of_int f < 1 / 2"
  then have "\<lfloor>q\<rfloor> = f"
    by (simp add: floor_eq_iff)
  with a show ?thesis
    by (simp add: roundHalfEven_def Let_def)
qed

lemma roundHalfEven_up: "1 / 2 < q - of_int f \<Longrightarrow> q < of_int f + 1 \<Longrightarrow> roundHalfEven q = f + 1"
proof -
  assume a: "1 / 2 < q - of_int f" "q < of_int f + 1"
  then have "\<lfloor>q\<rfloor> = f"
    by (simp add: floor_eq_iff)
  with a show ?thesis
    by (simp add: roundHalfEven_def Let_def)
qed

lemma roundHalfEven_tie: "q = of_int f + 1 / 2 \<Longrightarrow> roundHalfEven q = (if even f then f else f + 1)"
proof -
  assume a: "q = of_int f + 1 / 2"
  then have "\<lfloor>q\<rfloor> = f"
    by (simp add: floor_eq_iff)
  with a show ?thesis
    by (simp add: roundHalfEven_def Let_def)
qed

lemma roundDouble_normal:
  assumes "pow2 k \<le> \<bar>q\<bar>" and "\<bar>q\<bar> < pow2 (k + 1)" and "- 1022 \<le> k"
    and "roundHalfEven (q / pow2 (k - 52)) = m"
    and "\<bar>of_int m * pow2 (k - 52)\<bar> < pow2 1024"
  shows "roundDouble q = Finite (of_int m * pow2 (k - 52))"
proof -
  have e: "exponent \<bar>q\<bar> = k"
    using assms(1,2) by (rule exponent_unique)
  have q: "q \<noteq> 0"
    using assms(1) pow2_pos [of k] by auto
  have p: "max (k - 52) (- 1074) = k - 52"
    using assms(3) by simp
  from assms(5) have "\<not> pow2 1024 \<le> \<bar>of_int m * pow2 (k - 52)\<bar>"
    by simp
  then show ?thesis
    unfolding roundDouble_def Let_def e p assms(4) using q by simp
qed

text \<open>
  The decimal literals \<^verbatim>\<open>0.1\<close>, \<^verbatim>\<open>0.2\<close> and \<^verbatim>\<open>0.3\<close> as doubles, and the sum and the quotient the
  code computes on them.
\<close>

lemma decimal_literals:
  "roundDouble (1 / 10) = Finite (3602879701896397 / 36028797018963968)"
  "roundDouble (2 / 10) = Finite (3602879701896397 / 18014398509481984)"
  "roundDouble (3 / 10) = Finite (5404319552844595 / 18014398509481984)"
proof -
  have p: "pow2 (- 4 - 52) = 1 / 72057594037927936" "pow2 (- 3 - 52) = 1 / 36028797018963968"
    "pow2 (- 2 - 52) = 1 / 18014398509481984"
    "pow2 (- 56) = 1 / 72057594037927936" "pow2 (- 55) = 1 / 36028797018963968"
    "pow2 (- 54) = 1 / 18014398509481984"
    by (simp_all add: pow2_def)
  have "roundHalfEven (1 / 10 / pow2 (- 4 - 52)) = 7205759403792793 + 1"
    unfolding p by (rule roundHalfEven_up) simp_all
  then have "roundDouble (1 / 10) = Finite (of_int (7205759403792793 + 1) * pow2 (- 4 - 52))"
    by (intro roundDouble_normal) (simp_all add: pow2_def)
  then show "roundDouble (1 / 10) = Finite (3602879701896397 / 36028797018963968)"
    by (simp add: p)
  have "roundHalfEven (2 / 10 / pow2 (- 3 - 52)) = 7205759403792793 + 1"
    unfolding p by (rule roundHalfEven_up) simp_all
  then have "roundDouble (2 / 10) = Finite (of_int (7205759403792793 + 1) * pow2 (- 3 - 52))"
    by (intro roundDouble_normal) (simp_all add: pow2_def)
  then show "roundDouble (2 / 10) = Finite (3602879701896397 / 18014398509481984)"
    by (simp add: p)
  have "roundHalfEven (3 / 10 / pow2 (- 2 - 52)) = 5404319552844595"
    unfolding p by (rule roundHalfEven_down) simp_all
  then have "roundDouble (3 / 10) = Finite (of_int 5404319552844595 * pow2 (- 2 - 52))"
    by (intro roundDouble_normal) (simp_all add: pow2_def)
  then show "roundDouble (3 / 10) = Finite (5404319552844595 / 18014398509481984)"
    by (simp add: p)
qed

lemma sum_of_tenths:
  "roundDouble (0 + 3602879701896397 / 36028797018963968) =
     Finite (3602879701896397 / 36028797018963968)"
  "roundDouble (3602879701896397 / 36028797018963968 + 3602879701896397 / 18014398509481984) =
     Finite (1351079888211149 / 4503599627370496)"
  "roundDouble (1351079888211149 / 4503599627370496 + 5404319552844595 / 18014398509481984) =
     Finite (1351079888211149 / 2251799813685248)"
  "roundDouble (1351079888211149 / 2251799813685248 / 3) =
     Finite (7205759403792795 / 36028797018963968)"
proof -
  have p: "pow2 (- 4 - 52) = 1 / 72057594037927936" "pow2 (- 3 - 52) = 1 / 36028797018963968"
    "pow2 (- 2 - 52) = 1 / 18014398509481984" "pow2 (- 1 - 52) = 1 / 9007199254740992"
    "pow2 (- 56) = 1 / 72057594037927936" "pow2 (- 55) = 1 / 36028797018963968"
    "pow2 (- 54) = 1 / 18014398509481984" "pow2 (- 53) = 1 / 9007199254740992"
    by (simp_all add: pow2_def)
  have "roundHalfEven ((0 + 3602879701896397 / 36028797018963968) / pow2 (- 4 - 52)) =
      7205759403792794"
    unfolding p by (rule roundHalfEven_down) simp_all
  then have "roundDouble (0 + 3602879701896397 / 36028797018963968) =
      Finite (of_int 7205759403792794 * pow2 (- 4 - 52))"
    by (intro roundDouble_normal) (simp_all add: pow2_def)
  then show "roundDouble (0 + 3602879701896397 / 36028797018963968) =
      Finite (3602879701896397 / 36028797018963968)"
    by (simp add: p)
  have "roundHalfEven ((3602879701896397 / 36028797018963968 +
      3602879701896397 / 18014398509481984) / pow2 (- 2 - 52)) =
      (if even (5404319552844595 :: int) then 5404319552844595 else 5404319552844595 + 1)"
    unfolding p by (rule roundHalfEven_tie) simp
  then have "roundHalfEven ((3602879701896397 / 36028797018963968 +
      3602879701896397 / 18014398509481984) / pow2 (- 2 - 52)) = 5404319552844596"
    by simp
  then have "roundDouble (3602879701896397 / 36028797018963968 +
      3602879701896397 / 18014398509481984) = Finite (of_int 5404319552844596 * pow2 (- 2 - 52))"
    by (intro roundDouble_normal) (simp_all add: pow2_def)
  then show "roundDouble (3602879701896397 / 36028797018963968 +
      3602879701896397 / 18014398509481984) = Finite (1351079888211149 / 4503599627370496)"
    by (simp add: p)
  have "roundHalfEven ((1351079888211149 / 4503599627370496 +
      5404319552844595 / 18014398509481984) / pow2 (- 1 - 52)) =
      (if even (5404319552844595 :: int) then 5404319552844595 else 5404319552844595 + 1)"
    unfolding p by (rule roundHalfEven_tie) simp
  then have "roundHalfEven ((1351079888211149 / 4503599627370496 +
      5404319552844595 / 18014398509481984) / pow2 (- 1 - 52)) = 5404319552844596"
    by simp
  then have "roundDouble (1351079888211149 / 4503599627370496 +
      5404319552844595 / 18014398509481984) = Finite (of_int 5404319552844596 * pow2 (- 1 - 52))"
    by (intro roundDouble_normal) (simp_all add: pow2_def)
  then show "roundDouble (1351079888211149 / 4503599627370496 +
      5404319552844595 / 18014398509481984) = Finite (1351079888211149 / 2251799813685248)"
    by (simp add: p)
  have "roundHalfEven (1351079888211149 / 2251799813685248 / 3 / pow2 (- 3 - 52)) =
      7205759403792794 + 1"
    unfolding p by (rule roundHalfEven_up) simp_all
  then have "roundDouble (1351079888211149 / 2251799813685248 / 3) =
      Finite (of_int (7205759403792794 + 1) * pow2 (- 3 - 52))"
    by (intro roundDouble_normal) (simp_all add: pow2_def)
  then show "roundDouble (1351079888211149 / 2251799813685248 / 3) =
      Finite (7205759403792795 / 36028797018963968)"
    by (simp add: p)
qed

subsection \<open>The average score\<close>

text \<open>
  C5, as the code has it. \<^verbatim>\<open>averageQuizScore\<close> is 0 when there is no quiz attempt. When the
  scores are integers whose absolute values sum to at most \<open>2\<^sup>5\<^sup>3\<close>, the sum of the scores is
  exact and \<^verbatim>\<open>averageQuizScore\<close> is the arithmetic mean of the scores rounded to the nearest
  double: the arithmetic mean itself when that is an integer, as for the scores 80, 90, 100,
  which give 90.
\<close>

theorem averageQuizScore_rounded_mean:
  "(quizAttempts p = [] \<longrightarrow> averageQuizScore (computeStatistics p) = Finite 0) \<and>
   (quizAttempts p \<noteq> [] \<and> map qa_score (quizAttempts p) = map of_int ks \<and>
    (\<Sum>k\<leftarrow>ks. \<bar>k\<bar>) \<le> 2 ^ 53 \<longrightarrow>
      averageQuizScore (computeStatistics p) =
        roundDouble (arithmeticMean (map qa_score (quizAttempts p))) \<and>
      (arithmeticMean (map qa_score (quizAttempts p)) = of_int z \<longrightarrow>
         averageQuizScore (computeStatistics p) =
           Finite (arithmeticMean (map qa_score (quizAttempts p))))) \<and>
   (map qa_score (quizAttempts p) = [80, 90, 100] \<longrightarrow>
      averageQuizScore (computeStatistics p) = Finite 90)"
proof -
  let ?scores = "map qa_score (quizAttempts p)"
  have fold: "foldl (\<lambda>sum attempt. addDouble sum (Finite (qa_score attempt))) (Finite 0)
      (quizAttempts p) = foldl (\<lambda>sum s. addDouble sum (Finite s)) (Finite 0) ?scores"
    by (simp add: foldl_map)
  have rounded: "averageQuizScore (computeStatistics p) = roundDouble (arithmeticMean ?scores)"
    if "quizAttempts p \<noteq> []" "?scores = map of_int js" "(\<Sum>k\<leftarrow>js. \<bar>k\<bar>) \<le> 2 ^ 53" for js
  proof -
    have "foldl (\<lambda>sum s. addDouble sum (Finite s)) (Finite (of_int 0)) (map of_int js) =
        Finite (of_int (0 + sum_list js))"
      using that(3) by (intro sum_exact) simp
    then have "foldl (\<lambda>sum s. addDouble sum (Finite s)) (Finite 0) ?scores =
        Finite (sum_list ?scores)"
      by (simp add: that(2) sum_list_of_int)
    with that(1) show ?thesis
      by (simp add: computeStatistics_def fold arithmeticMean_def)
  qed
  have mean_small: "\<bar>z\<bar> \<le> 2 ^ 53"
    if "quizAttempts p \<noteq> []" "?scores = map of_int js" "(\<Sum>k\<leftarrow>js. \<bar>k\<bar>) \<le> 2 ^ 53"
      "arithmeticMean ?scores = of_int z" for js
  proof -
    have n: "0 < length js"
      using that(1,2) by (metis length_greater_0_conv length_map)
    have "of_int z * of_nat (length js) = (of_int (sum_list js) :: rat)"
      using that(2,4) n by (simp add: arithmeticMean_def sum_list_of_int field_simps)
    then have "z * int (length js) = sum_list js"
      by (metis of_int_eq_iff of_int_mult of_int_of_nat_eq)
    then have "\<bar>z * int (length js)\<bar> = \<bar>sum_list js\<bar>"
      by (rule arg_cong)
    then have "\<bar>z\<bar> * int (length js) = \<bar>sum_list js\<bar>"
      by (simp add: abs_mult)
    moreover have "\<bar>z\<bar> \<le> \<bar>z\<bar> * int (length js)"
    proof -
      have "1 \<le> int (length js)"
        using n by linarith
      then have "\<bar>z\<bar> * 1 \<le> \<bar>z\<bar> * int (length js)"
        by (rule mult_left_mono) simp
      then show ?thesis
        by simp
    qed
    moreover have "\<bar>sum_list js\<bar> \<le> (\<Sum>k\<leftarrow>js. \<bar>k\<bar>)"
      by (rule sum_list_abs)
    ultimately show ?thesis
      using that(3) by linarith
  qed
  have exact: "averageQuizScore (computeStatistics p) = Finite (arithmeticMean ?scores)"
    if "quizAttempts p \<noteq> []" "?scores = map of_int js" "(\<Sum>k\<leftarrow>js. \<bar>k\<bar>) \<le> 2 ^ 53"
      "arithmeticMean ?scores = of_int z" for js
    using rounded [OF that(1-3)] roundDouble_of_int [OF mean_small [OF that]] that(4) by simp
  have example: "averageQuizScore (computeStatistics p) = Finite 90"
    if scores: "?scores = [80, 90, 100]"
  proof -
    have 1: "quizAttempts p \<noteq> []"
      using scores by auto
    have 2: "?scores = map of_int [80, 90, 100]"
      using scores by simp
    have 3: "(\<Sum>k\<leftarrow>[80, 90, 100 :: int]. \<bar>k\<bar>) \<le> 2 ^ 53"
      by simp
    have "roundDouble (of_int 90) = Finite (of_int 90)"
      by (rule roundDouble_of_int) simp
    moreover have "arithmeticMean ?scores = of_int 90"
      by (simp add: scores arithmeticMean_def)
    ultimately show ?thesis
      using rounded [OF 1 2 3] by simp
  qed
  have empty: "averageQuizScore (computeStatistics p) = Finite 0" if "quizAttempts p = []"
    using that by (simp add: computeStatistics_def)
  show ?thesis
    using empty rounded exact example by blast
qed

theorem averageQuizScore_rounded_mean_witness:
  "averageQuizScore (computeStatistics threeAttempts) = Finite 90 \<and>
   averageQuizScore (computeStatistics aliceProgress) = Finite 0 \<and>
   map qa_score (quizAttempts threeAttempts) = map of_int [80, 90, 100] \<and>
   (\<Sum>k\<leftarrow>[80, 90, 100 :: int]. \<bar>k\<bar>) \<le> 2 ^ 53 \<and>
   arithmeticMean (map qa_score (quizAttempts threeAttempts)) = of_int 90 \<and>
   averageQuizScore (computeStatistics threeAttempts) =
     roundDouble (arithmeticMean (map qa_score (quizAttempts threeAttempts))) \<and>
   averageQuizScore (computeStatistics threeAttempts) =
     Finite (arithmeticMean (map qa_score (quizAttempts threeAttempts)))"
proof -
  have 1: "map qa_score (quizAttempts threeAttempts) = [80, 90, 100]"
    by (simp add: threeAttempts_def attempt_def)
  have 2: "quizAttempts aliceProgress = []"
    by (simp add: aliceProgress_def)
  have 3: "quizAttempts threeAttempts \<noteq> [] \<and>
      map qa_score (quizAttempts threeAttempts) = map of_int [80, 90, 100] \<and>
      (\<Sum>k\<leftarrow>[80, 90, 100 :: int]. \<bar>k\<bar>) \<le> 2 ^ 53"
    by (simp add: threeAttempts_def attempt_def)
  have 4: "arithmeticMean (map qa_score (quizAttempts threeAttempts)) = of_int 90"
    by (simp add: 1 arithmeticMean_def)
  note mean = averageQuizScore_rounded_mean [of threeAttempts "[80, 90, 100]" 90,
      THEN conjunct2, THEN conjunct1, THEN mp, OF 3]
  from averageQuizScore_rounded_mean [of threeAttempts, THEN conjunct2, THEN conjunct2, THEN mp,
      OF 1]
    averageQuizScore_rounded_mean [of aliceProgress, THEN conjunct1, THEN mp, OF 2]
    3 4 mean [THEN conjunct1] mean [THEN conjunct2, THEN mp, OF 4]
  show ?thesis by blast
qed

text \<open>
  C5 as stated fails: the scores 1, 1, 2 have the arithmetic mean \<open>4/3\<close>, which is not a
  double; \<^verbatim>\<open>averageQuizScore\<close> is the double next to it, \<^verbatim>\<open>1.3333333333333333\<close>.
\<close>

theorem averageQuizScore_exact_mean_counterexample:
  "map qa_score (quizAttempts oneOneTwo) = [1, 1, 2] \<and>
   arithmeticMean (map qa_score (quizAttempts oneOneTwo)) = 4 / 3 \<and>
   averageQuizScore (computeStatistics oneOneTwo) =
     Finite (6004799503160661 / 4503599627370496) \<and>
   averageQuizScore (computeStatistics oneOneTwo) \<noteq>
     Finite (arithmeticMean (map qa_score (quizAttempts oneOneTwo)))"
proof -
  have scores: "map qa_score (quizAttempts oneOneTwo) = map of_int [1, 1, 2]"
    by (simp add: oneOneTwo_def attempt_def)
  have mean: "arithmeticMean (map qa_score (quizAttempts oneOneTwo)) = 4 / 3"
    by (simp add: scores arithmeticMean_def)
  have "foldl (\<lambda>sum s. addDouble sum (Finite s)) (Finite (of_int 0)) (map of_int [1, 1, 2]) =
      Finite (of_int (0 + sum_list [1, 1, 2]))"
    by (rule sum_exact) simp
  then have "foldl (\<lambda>sum attempt. addDouble sum (Finite (qa_score attempt))) (Finite 0)
      (quizAttempts oneOneTwo) = Finite 4"
    by (simp add: oneOneTwo_def attempt_def)
  then have "averageQuizScore (computeStatistics oneOneTwo) = roundDouble (4 / 3)"
    by (simp add: computeStatistics_def) (simp add: oneOneTwo_def)
  then have avg: "averageQuizScore (computeStatistics oneOneTwo) =
      Finite (6004799503160661 / 4503599627370496)"
    by (simp only: round_four_thirds)
  have "(6004799503160661 :: rat) / 4503599627370496 \<noteq> 4 / 3"
    by simp
  with avg mean scores show ?thesis
    by simp
qed

text \<open>
  With scores that are not integers the sum is rounded as well, and the result need not be the
  double nearest to the arithmetic mean: the scores \<^verbatim>\<open>0.1\<close>, \<^verbatim>\<open>0.2\<close>, \<^verbatim>\<open>0.3\<close> give
  \<^verbatim>\<open>0.20000000000000004\<close>, where the double nearest to their mean is \<^verbatim>\<open>0.2\<close>.
\<close>

lemma average_of_tenths:
  "averageQuizScore (computeStatistics tenths) = Finite (7205759403792795 / 36028797018963968)"
proof -
  have "foldl (\<lambda>sum attempt. addDouble sum (Finite (qa_score attempt))) (Finite 0)
      (quizAttempts tenths) = Finite (1351079888211149 / 2251799813685248)"
    using sum_of_tenths(1,2,3) by (simp add: tenths_def attempt_def)
  moreover have "length (quizAttempts tenths) = 3"
    by (simp add: tenths_def)
  ultimately show ?thesis
    using sum_of_tenths(4) by (simp add: computeStatistics_def)
qed

lemma rounded_mean_of_tenths:
  "roundDouble (arithmeticMean (map qa_score (quizAttempts tenths))) =
     Finite (3602879701896397 / 18014398509481984)"
proof -
  have p: "pow2 (- 3 - 52) = 1 / 36028797018963968" "pow2 (- 55) = 1 / 36028797018963968"
    by (simp_all add: pow2_def)
  have mean: "arithmeticMean (map qa_score (quizAttempts tenths)) =
      21617278211378381 / 108086391056891904"
    by (simp add: tenths_def attempt_def arithmeticMean_def)
  have "roundHalfEven (21617278211378381 / 108086391056891904 / pow2 (- 3 - 52)) =
      7205759403792793 + 1"
    unfolding p by (rule roundHalfEven_up) simp_all
  then have "roundDouble (21617278211378381 / 108086391056891904) =
      Finite (of_int (7205759403792793 + 1) * pow2 (- 3 - 52))"
    by (intro roundDouble_normal) (simp_all add: pow2_def)
  then show ?thesis
    by (simp add: mean p)
qed

text \<open>
  C2, at the input where it fails. Two accesses to different lessons,
  \<^verbatim>\<open>("a:b", "c", "d")\<close> and \<^verbatim>\<open>("a", "b:c", "d")\<close>, have the same key \<^verbatim>\<open>"a:b:c:d"\<close>, so
  \<^verbatim>\<open>uniqueLessonsAccessed\<close> is 1 where the history has 2 distinct triples.
\<close>

theorem uniqueLessonsAccessed_colon_collision:
  "uniqueLessonsAccessed (computeStatistics collidingProgress) = 1 \<and>
   card (set (map lessonTriple (lessonAccessHistory collidingProgress))) = 2"
  by (simp add: computeStatistics_def collidingProgress_def lesson_def lessonKey_def
      lessonTriple_def setSize_def)

text \<open>
  Where no \<^verbatim>\<open>courseId\<close> and no \<^verbatim>\<open>sectionId\<close> of the history contains a colon, the key
  determines the triple and \<^verbatim>\<open>uniqueLessonsAccessed\<close> is the number of distinct triples.
\<close>

lemma joined_eq:
  assumes "CHR '':'' \<notin> set a" and "CHR '':'' \<notin> set b"
    and "a @ CHR '':'' # x = b @ CHR '':'' # y"
  shows "a = b \<and> x = y"
  using assms
proof (induction a arbitrary: b)
  case Nil
  then show ?case by (cases b) auto
next
  case (Cons h a)
  then show ?case by (cases b) auto
qed

lemma lessonKey_inj:
  assumes "CHR '':'' \<notin> set (la_courseId a)" "CHR '':'' \<notin> set (la_sectionId a)"
    and "CHR '':'' \<notin> set (la_courseId b)" "CHR '':'' \<notin> set (la_sectionId b)"
    and "lessonKey a = lessonKey b"
  shows "lessonTriple a = lessonTriple b"
proof -
  from assms(5) have "la_courseId a @ CHR '':'' # (la_sectionId a @ '':'' @ la_chapterId a) =
      la_courseId b @ CHR '':'' # (la_sectionId b @ '':'' @ la_chapterId b)"
    by (simp add: lessonKey_def)
  from joined_eq [OF assms(1,3) this]
  have c: "la_courseId a = la_courseId b"
    and rest: "la_sectionId a @ CHR '':'' # la_chapterId a = la_sectionId b @ CHR '':'' # la_chapterId b"
    by simp_all
  from joined_eq [OF assms(2,4) rest] c show ?thesis
    by (simp add: lessonTriple_def)
qed

lemma uniqueLessonsAccessed_colon_free:
  assumes "\<forall>a \<in> set (lessonAccessHistory p).
      CHR '':'' \<notin> set (la_courseId a) \<and> CHR '':'' \<notin> set (la_sectionId a)"
  shows "uniqueLessonsAccessed (computeStatistics p) =
         card (set (map lessonTriple (lessonAccessHistory p)))"
proof -
  let ?h = "set (lessonAccessHistory p)"
  define join where "join = (\<lambda>(c, s, ch). c @ '':'' @ s @ '':'' @ (ch :: string))"
  have key: "lessonKey a = join (lessonTriple a)" for a
    by (simp add: join_def lessonKey_def lessonTriple_def)
  have "inj_on join (lessonTriple ` ?h)"
  proof (rule inj_onI)
    fix x y assume "x \<in> lessonTriple ` ?h" "y \<in> lessonTriple ` ?h" "join x = join y"
    then obtain a b where ab: "a \<in> ?h" "b \<in> ?h" "x = lessonTriple a" "y = lessonTriple b"
      by auto
    with \<open>join x = join y\<close> have "lessonKey a = lessonKey b"
      by (simp add: key)
    with assms ab show "x = y"
      by (auto intro: lessonKey_inj)
  qed
  then have "card (join ` lessonTriple ` ?h) = card (lessonTriple ` ?h)"
    by (rule card_image)
  moreover have "lessonKey ` ?h = join ` lessonTriple ` ?h"
    by (auto simp: key image_iff)
  ultimately show ?thesis
    by (simp add: computeStatistics_def setSize_def)
qed

section \<open>The most accessed courses\<close>

subsection \<open>The frequency object\<close>

lemma firstIndex_less: "k \<in> set ks \<Longrightarrow> firstIndex ks k < length ks"
  unfolding firstIndex_def by (induction ks) auto

lemma firstIndex_snoc:
  "firstIndex (ks @ [x]) k = (if k \<in> set ks then firstIndex ks k
     else if k = x then length ks else Suc (length ks))"
  unfolding firstIndex_def by (induction ks) auto

lemma map_fst_put:
  "map fst (put F k c) = (if k \<in> fst ` set F then map fst F else map fst F @ [k])"
  by (induction F k c rule: put.induct) (auto simp: image_iff)

lemma set_put_distinct:
  "distinct (map fst F) \<Longrightarrow>
   set (put F k c) = insert (k, c) {e \<in> set F. fst e \<noteq> k}"
  by (induction F k c rule: put.induct) (auto simp: image_iff)

lemma sorted_wrt_distinct: "sorted_wrt P xs \<Longrightarrow> (\<And>x. \<not> P x x) \<Longrightarrow> distinct xs"
  by (induction xs) auto

lemma not_inherited:
  "\<not> inherited k \<Longrightarrow> map_of objectPrototype k = None \<and> k \<noteq> ''__proto__''"
  unfolding inherited_def
  by (auto simp: map_of_eq_None_iff objectPrototype_def)

lemma counted_distinct: "counted ks F \<Longrightarrow> distinct (map fst F)"
  unfolding counted_def
  by (auto elim!: sorted_wrt_distinct)

lemma counted_increment:
  assumes "counted ks F" and "\<not> inherited k"
  shows "increment F k = CNum (Suc (count_list ks k))"
proof (cases "map_of F k")
  case None
  then have "k \<notin> set ks"
    using assms(1) by (auto simp: counted_def map_of_eq_None_iff)
  with None assms(2) show ?thesis
    by (simp add: increment_def not_inherited)
next
  case (Some c)
  then have "(k, c) \<in> set F"
    by (rule map_of_SomeD)
  with assms(1) have "c = CNum (count_list ks k)"
    by (auto simp: counted_def)
  with Some show ?thesis
    by (simp add: increment_def)
qed

lemma counted_step:
  assumes "counted ks F" and "\<not> inherited k"
  shows "counted (ks @ [k]) (assign F k (increment F k))"
proof -
  let ?c = "CNum (Suc (count_list ks k))"
  have F': "assign F k (increment F k) = put F k ?c"
    using assms by (simp add: assign_def counted_increment not_inherited)
  have keys: "fst ` set F = set ks"
    and cnt: "\<And>e. e \<in> set F \<Longrightarrow> snd e = CNum (count_list ks (fst e))"
    and ord: "sorted_wrt (\<lambda>x y. firstIndex ks x < firstIndex ks y) (map fst F)"
    using assms(1) by (auto simp: counted_def)
  have dist: "distinct (map fst F)"
    using assms(1) by (rule counted_distinct)
  have ord': "sorted_wrt (\<lambda>x y. firstIndex (ks @ [k]) x < firstIndex (ks @ [k]) y) (map fst F)"
    using ord keys
    by (auto simp: firstIndex_snoc elim!: sorted_wrt_mono_rel [rotated])
  have 1: "sorted_wrt (\<lambda>x y. firstIndex (ks @ [k]) x < firstIndex (ks @ [k]) y)
      (map fst (put F k ?c))"
  proof (cases "k \<in> set ks")
    case True
    with ord' keys show ?thesis by (simp add: map_fst_put)
  next
    case False
    with ord' keys show ?thesis
      by (auto simp: map_fst_put sorted_wrt_append firstIndex_snoc firstIndex_less)
  qed
  have 2: "fst ` set (put F k ?c) = set (ks @ [k])"
    using keys by (auto simp: set_put_distinct [OF dist] image_iff)
  have 3: "\<forall>e \<in> set (put F k ?c). snd e = CNum (count_list (ks @ [k]) (fst e))"
    using cnt by (auto simp: set_put_distinct [OF dist])
  from 1 2 3 show ?thesis
    unfolding F' counted_def by blast
qed

lemma counted_countFrequency:
  assumes "\<forall>x \<in> set array. \<not> inherited (key x)"
  shows "counted (map key array) (countFrequency array key)"
  using assms
proof (induction array rule: rev_induct)
  case Nil
  then show ?case by (simp add: countFrequency_def counted_def)
next
  case (snoc x xs)
  then have "counted (map key xs) (countFrequency xs key)" and "\<not> inherited (key x)"
    by simp_all
  from counted_step [OF this] show ?case
    by (simp add: countFrequency_def)
qed

subsection \<open>Array indices\<close>

lemma indexValue_snoc: "indexValue (s @ [c]) = 10 * indexValue s + (of_char c - 48)"
  by (simp add: indexValue_def)

lemma indexValue_Nil: "indexValue [] = 0"
  by (simp add: indexValue_def)

lemma isDigit_zero: "isDigit c \<Longrightarrow> of_char c - (48::nat) = 0 \<longleftrightarrow> c = CHR ''0''"
proof -
  assume d: "isDigit c"
  have "(of_char c :: nat) = of_char (CHR ''0'') \<longleftrightarrow> c = CHR ''0''"
    by (rule of_char_eq_iff)
  moreover have "(of_char (CHR ''0'') :: nat) = 48"
    by simp
  moreover from d have "48 \<le> (of_char c :: nat)"
    by (simp add: isDigit_def)
  ultimately show ?thesis
    by (metis diff_is_0_eq le_antisym order_refl)
qed

lemma isDigit_eq:
  assumes "isDigit c" "isDigit d" "of_char c - (48::nat) = of_char d - 48"
  shows "c = d"
proof -
  from assms have "(of_char c :: nat) = of_char d"
    unfolding isDigit_def by arith
  then show ?thesis by (simp only: of_char_eq_iff)
qed

lemma isDigit_less: "isDigit c \<Longrightarrow> of_char c - (48::nat) < 10"
  unfolding isDigit_def by arith

lemma noLeadingZero_butlast: "noLeadingZero (s @ [c]) \<Longrightarrow> noLeadingZero s"
  by (cases s) (auto simp: noLeadingZero_def)

lemma indexValue_pos: "noLeadingZero s \<Longrightarrow> s \<noteq> [] \<Longrightarrow> 0 < indexValue s"
proof (induction s rule: rev_induct)
  case Nil
  then show ?case by simp
next
  case (snoc c s)
  show ?case
  proof (cases "s = []")
    case True
    with snoc.prems have "isDigit c" "c \<noteq> CHR ''0''"
      by (auto simp: noLeadingZero_def)
    then have "of_char c - (48::nat) \<noteq> 0"
      using isDigit_zero [of c] by blast
    with True show ?thesis
      using indexValue_snoc [of "[]" c] by (simp add: indexValue_Nil)
  next
    case False
    with snoc show ?thesis
      by (auto simp: indexValue_snoc dest: noLeadingZero_butlast)
  qed
qed

lemma indexValue_inj_aux:
  "noLeadingZero s \<Longrightarrow> noLeadingZero t \<Longrightarrow> indexValue s = indexValue t \<Longrightarrow> s = t"
proof (induction s arbitrary: t rule: rev_induct)
  case Nil
  then show ?case
    using indexValue_pos [of t] by (auto simp: indexValue_Nil)
next
  case (snoc c s)
  show ?case
  proof (cases t rule: rev_cases)
    case Nil
    with snoc.prems show ?thesis
      using indexValue_pos [of "s @ [c]"] by (auto simp: indexValue_Nil)
  next
    case (snoc t' d)
    from snoc.prems(1) have dc: "isDigit c" by (simp add: noLeadingZero_def)
    from snoc.prems(2) snoc have dd: "isDigit d" by (simp add: noLeadingZero_def)
    from snoc.prems(3) snoc
    have eq: "10 * indexValue s + (of_char c - 48) = 10 * indexValue t' + (of_char d - 48)"
      by (simp add: indexValue_snoc)
    define a b where "a = of_char c - (48::nat)" and "b = of_char d - (48::nat)"
    have "a < 10" "b < 10"
      using isDigit_less [OF dc] isDigit_less [OF dd] by (simp_all add: a_def b_def)
    moreover have "10 * indexValue s + a = 10 * indexValue t' + b"
      using eq by (simp add: a_def b_def)
    ultimately have "indexValue s = indexValue t' \<and> a = b"
      by presburger
    then have v: "indexValue s = indexValue t'"
      and digits: "of_char c - (48::nat) = of_char d - 48"
      by (simp_all add: a_def b_def)
    have "noLeadingZero s" "noLeadingZero t'"
      using snoc.prems(1,2) snoc by (auto dest: noLeadingZero_butlast)
    then have "s = t'"
      using v by (rule snoc.IH)
    moreover have "c = d"
      using dc dd digits by (rule isDigit_eq)
    ultimately show ?thesis
      using snoc by simp
  qed
qed

lemma isArrayIndex_cases:
  "isArrayIndex s \<Longrightarrow> s = ''0'' \<or> (s \<noteq> [] \<and> noLeadingZero s)"
  by (auto simp: isArrayIndex_def noLeadingZero_def)

lemma indexValue_zero: "indexValue ''0'' = 0"
  by (simp add: indexValue_def)

lemma indexValue_inj:
  assumes "isArrayIndex s" "isArrayIndex t" "indexValue s = indexValue t"
  shows "s = t"
  using isArrayIndex_cases [OF assms(1)] isArrayIndex_cases [OF assms(2)] assms(3)
    indexValue_pos [of s] indexValue_pos [of t] indexValue_inj_aux [of s t]
  by (auto simp: indexValue_zero)

subsection \<open>The order of \<^verbatim>\<open>Object.entries\<close> and the stable sort\<close>

lemma set_objectEntries: "set (objectEntries F) = set F"
  by (auto simp: objectEntries_def)

lemma sorted_wrt_objectEntries:
  assumes "counted ks F"
  shows "sorted_wrt (\<lambda>a b. listedBefore ks (fst a) (fst b)) (objectEntries F)"
proof -
  let ?idx = "filter (\<lambda>e. isArrayIndex (fst e)) F"
  let ?rest = "filter (\<lambda>e. \<not> isArrayIndex (fst e)) F"
  let ?sorted = "sort_key (\<lambda>e. indexValue (fst e)) ?idx"
  have dist: "distinct (map fst F)"
    using assms by (rule counted_distinct)
  have "inj_on (\<lambda>e. indexValue (fst e)) (set ?idx)"
  proof (rule inj_onI)
    fix a b assume "a \<in> set ?idx" "b \<in> set ?idx" "indexValue (fst a) = indexValue (fst b)"
    then have "fst a = fst b" "a \<in> set F" "b \<in> set F"
      by (auto intro: indexValue_inj)
    with dist show "a = b"
      by (meson distinct_map inj_onD)
  qed
  moreover have "distinct ?idx"
    using dist by (simp add: distinct_map)
  ultimately have "distinct (map (\<lambda>e. indexValue (fst e)) ?idx)"
    by (simp add: distinct_map)
  then have "distinct (map (\<lambda>e. indexValue (fst e)) ?sorted)"
    by (simp add: distinct_map)
  moreover have "sorted (map (\<lambda>e. indexValue (fst e)) ?sorted)"
    by (rule sorted_sort_key)
  ultimately have "sorted_wrt (<) (map (\<lambda>e. indexValue (fst e)) ?sorted)"
    by (simp add: strict_sorted_iff)
  then have "sorted_wrt (\<lambda>a b. indexValue (fst a) < indexValue (fst b)) ?sorted"
    by (simp add: sorted_wrt_map)
  then have 1: "sorted_wrt (\<lambda>a b. listedBefore ks (fst a) (fst b)) ?sorted"
    by (rule sorted_wrt_mono_rel [rotated]) (auto simp: listedBefore_def)
  have "sorted_wrt (\<lambda>a b. firstIndex ks (fst a) < firstIndex ks (fst b)) F"
    using assms by (simp add: counted_def sorted_wrt_map)
  then have "sorted_wrt (\<lambda>a b. firstIndex ks (fst a) < firstIndex ks (fst b)) ?rest"
    by (rule sorted_wrt_filter)
  then have 2: "sorted_wrt (\<lambda>a b. listedBefore ks (fst a) (fst b)) ?rest"
    by (rule sorted_wrt_mono_rel [rotated]) (auto simp: listedBefore_def)
  have 3: "\<forall>a \<in> set ?sorted. \<forall>b \<in> set ?rest. listedBefore ks (fst a) (fst b)"
    by (auto simp: listedBefore_def)
  from 1 2 3 show ?thesis
    by (simp add: objectEntries_def sorted_wrt_append)
qed

lemma set_insertInto: "set (insertInto cmp x ys) = insert x (set ys)"
  by (induction ys) auto

lemma set_arraySort: "set (arraySort cmp xs) = set xs"
  by (induction xs) (auto simp: set_insertInto)

lemma sorted_wrt_insertInto:
  assumes "sorted_wrt P ys"
    and "\<And>y. y \<in> set ys \<Longrightarrow> comparatorResult (cmp x y) \<le> 0 \<Longrightarrow> P x y"
    and "\<And>y. y \<in> set ys \<Longrightarrow> \<not> comparatorResult (cmp x y) \<le> 0 \<Longrightarrow> P y x"
    and "\<And>y z. y \<in> set ys \<Longrightarrow> z \<in> set ys \<Longrightarrow> P y z \<Longrightarrow>
           comparatorResult (cmp x y) \<le> 0 \<Longrightarrow> comparatorResult (cmp x z) \<le> 0"
  shows "sorted_wrt P (insertInto cmp x ys)"
  using assms
proof (induction ys)
  case Nil
  then show ?case by simp
next
  case (Cons y ys)
  show ?case
  proof (cases "comparatorResult (cmp x y) \<le> 0")
    case True
    have "P x z" if "z \<in> set (y # ys)" for z
    proof (cases "z = y")
      case True
      with \<open>comparatorResult (cmp x y) \<le> 0\<close> Cons.prems(2) show ?thesis by simp
    next
      case False
      with that have z: "z \<in> set ys" by simp
      with Cons.prems(1) have "P y z" by simp
      with Cons.prems(4) [of y z] z True have "comparatorResult (cmp x z) \<le> 0" by simp
      with Cons.prems(2) [of z] z show ?thesis by simp
    qed
    with True Cons.prems(1) show ?thesis by simp
  next
    case False
    have "sorted_wrt P (insertInto cmp x ys)"
    proof (rule Cons.IH)
      show "sorted_wrt P ys" using Cons.prems(1) by simp
    next
      fix z assume "z \<in> set ys" "comparatorResult (cmp x z) \<le> 0"
      then show "P x z" using Cons.prems(2) [of z] by simp
    next
      fix z assume "z \<in> set ys" "\<not> comparatorResult (cmp x z) \<le> 0"
      then show "P z x" using Cons.prems(3) [of z] by simp
    next
      fix z w assume "z \<in> set ys" "w \<in> set ys" "P z w" "comparatorResult (cmp x z) \<le> 0"
      then show "comparatorResult (cmp x w) \<le> 0" using Cons.prems(4) [of z w] by simp
    qed
    moreover have "P y x"
      using Cons.prems(3) [of y] False by simp
    ultimately show ?thesis
      using False Cons.prems(1) by (auto simp: set_insertInto)
  qed
qed

lemma sorted_wrt_arraySort:
  assumes "sorted_wrt Q xs" and "\<forall>e \<in> set xs. snd e = CNum (cnt (fst e))"
  shows "sorted_wrt (\<lambda>a b. cnt (fst b) < cnt (fst a) \<or> (cnt (fst b) = cnt (fst a) \<and> Q a b))
           (arraySort byCountDescending xs)"
  using assms
proof (induction xs)
  case Nil
  then show ?case by simp
next
  case (Cons x xs)
  let ?P = "\<lambda>a b. cnt (fst b) < cnt (fst a) \<or> (cnt (fst b) = cnt (fst a) \<and> Q a b)"
  have cmp: "comparatorResult (byCountDescending x y) \<le> 0 \<longleftrightarrow> cnt (fst y) \<le> cnt (fst x)"
    if "y \<in> set xs" for y
    using that Cons.prems(2) by (simp add: byCountDescending_def comparatorResult_def)
  have sorted: "sorted_wrt ?P (arraySort byCountDescending xs)"
    using Cons by simp
  have "sorted_wrt ?P (insertInto byCountDescending x (arraySort byCountDescending xs))"
  proof (rule sorted_wrt_insertInto [OF sorted])
    fix y assume "y \<in> set (arraySort byCountDescending xs)"
      and "comparatorResult (byCountDescending x y) \<le> 0"
    with Cons.prems(1) show "?P x y"
      by (auto simp: set_arraySort cmp)
  next
    fix y assume "y \<in> set (arraySort byCountDescending xs)"
      and "\<not> comparatorResult (byCountDescending x y) \<le> 0"
    then show "?P y x"
      by (auto simp: set_arraySort cmp)
  next
    fix y z assume "y \<in> set (arraySort byCountDescending xs)"
      and "z \<in> set (arraySort byCountDescending xs)" and "?P y z"
      and "comparatorResult (byCountDescending x y) \<le> 0"
    then show "comparatorResult (byCountDescending x z) \<le> 0"
      by (auto simp: set_arraySort cmp)
  qed
  then show ?case by simp
qed

lemma rankedBefore_irrefl: "\<not> rankedBefore ks k k"
  by (simp add: rankedBefore_def listedBefore_def)

lemma getTopItems_ranking:
  assumes "\<forall>x \<in> set array. \<not> inherited (key x)"
  defines "ks \<equiv> map key array"
  shows "\<exists>R. getTopItems array key limit = take limit R \<and>
           fst ` set R = set ks \<and> distinct (map fst R) \<and>
           (\<forall>e \<in> set R. snd e = CNum (count_list ks (fst e))) \<and>
           sorted_wrt (\<lambda>a b. rankedBefore ks (fst a) (fst b)) R"
proof -
  let ?F = "countFrequency array key"
  let ?R = "arraySort byCountDescending (objectEntries ?F)"
  have F: "counted ks ?F"
    unfolding ks_def using assms(1) by (rule counted_countFrequency)
  have set: "set ?R = set ?F"
    by (simp add: set_arraySort set_objectEntries)
  have counts: "\<forall>e \<in> set (objectEntries ?F). snd e = CNum (count_list ks (fst e))"
    using F by (simp add: set_objectEntries counted_def)
  have "sorted_wrt (\<lambda>a b. count_list ks (fst b) < count_list ks (fst a) \<or>
      (count_list ks (fst b) = count_list ks (fst a) \<and> listedBefore ks (fst a) (fst b))) ?R"
    using sorted_wrt_objectEntries [OF F] counts by (rule sorted_wrt_arraySort)
  then have ranked: "sorted_wrt (\<lambda>a b. rankedBefore ks (fst a) (fst b)) ?R"
    by (simp add: rankedBefore_def)
  then have "sorted_wrt (rankedBefore ks) (map fst ?R)"
    by (simp add: sorted_wrt_map)
  then have "distinct (map fst ?R)"
    by (rule sorted_wrt_distinct) (rule rankedBefore_irrefl)
  moreover have "fst ` set ?R = set ks"
    using F by (simp add: set counted_def)
  moreover have "\<forall>e \<in> set ?R. snd e = CNum (count_list ks (fst e))"
    using F by (simp add: set counted_def)
  moreover have "getTopItems array key limit = take limit ?R"
    by (simp add: getTopItems_def)
  ultimately show ?thesis
    using ranked by blast
qed

subsection \<open>The ranking\<close>

lemma ranking_of_three:
  assumes ks: "ks = [A, B, A, A, C, B]" and d: "distinct [A, B, C]"
    and keys: "fst ` set R = set ks" and dist: "distinct (map fst R)"
    and counts: "\<forall>e \<in> set R. snd e = CNum (count_list ks (fst e))"
    and sorted: "sorted_wrt (\<lambda>a b. rankedBefore ks (fst a) (fst b)) R"
  shows "R = [(A, CNum 3), (B, CNum 2), (C, CNum 1)]"
proof -
  define g where "g k = 3 - count_list ks k" for k
  have c: "count_list ks A = 3" "count_list ks B = 2" "count_list ks C = 1"
    using d by (auto simp: ks)
  have set: "set (map fst R) = {A, B, C}"
    using keys by (auto simp: ks)
  have "sorted_wrt (rankedBefore ks) (map fst R)"
    using sorted by (simp add: sorted_wrt_map)
  then have "sorted_wrt (\<lambda>k k'. g k < g k') (map fst R)"
  proof (rule sorted_wrt_mono_rel [rotated])
    fix k k' assume "k \<in> set (map fst R)" "k' \<in> set (map fst R)" "rankedBefore ks k k'"
    then have "k \<in> {A, B, C}" "k' \<in> {A, B, C}" "k \<noteq> k'"
      "count_list ks k' < count_list ks k \<or> count_list ks k' = count_list ks k"
      using rankedBefore_irrefl [of ks k] unfolding set by (auto simp: rankedBefore_def)
    then show "g k < g k'"
      using d by (auto simp: g_def c)
  qed
  then have "sorted_wrt (<) (map g (map fst R))"
    by (simp add: sorted_wrt_map)
  then have s1: "sorted (map g (map fst R))" and d1: "distinct (map g (map fst R))"
    by (simp_all add: strict_sorted_iff)
  have "set (map g (map fst R)) = g ` set (map fst R)"
    by (rule list.set_map)
  also have "\<dots> = g ` {A, B, C}"
    by (simp only: set)
  also have "\<dots> = set [0, 1, 2]"
    by (simp add: g_def c)
  finally have e: "set (map g (map fst R)) = set [0, 1, 2]" .
  have s2: "sorted [0, 1, 2::nat]" and d2: "distinct [0, 1, 2::nat]"
    by simp_all
  from s1 d1 s2 d2 e have "map g (map fst R) = [0, 1, 2]"
    by (rule sorted_distinct_set_unique)
  also have "\<dots> = map g [A, B, C]"
    by (simp add: g_def c)
  finally have "map fst R = [A, B, C]"
  proof (rule map_inj_on)
    show "inj_on g (set (map fst R) \<union> set [A, B, C])"
      unfolding set by (auto simp: inj_on_def g_def c)
  qed
  moreover have "R = map (\<lambda>k. (k, CNum (count_list ks k))) (map fst R)"
    using counts by (simp add: map_idI prod_eq_iff)
  ultimately show ?thesis
    by (simp add: c)
qed

lemma not_inherited_ABC: "\<not> inherited ''A''" "\<not> inherited ''B''" "\<not> inherited ''C''"
  by (simp_all add: inherited_def objectPrototype_def)

lemma arrayIndex_1_2:
  "isArrayIndex ''1''" "isArrayIndex ''2''" "indexValue ''1'' = 1" "indexValue ''2'' = 2"
  by (simp_all add: isArrayIndex_def isDigit_def indexValue_def)

text \<open>
  The hypothesis on inherited names in the ranking is needed: an access to a course whose id
  is \<^verbatim>\<open>__proto__\<close> is not counted at all.
\<close>

lemma inherited_name_not_counted:
  "courseIds protoAccess = [''__proto__''] \<and> mostAccessedCourses (computeStatistics protoAccess) = []"
  by (simp add: courseIds_def protoAccess_def lesson_def computeStatistics_def getTopItems_def
      countFrequency_def assign_def objectEntries_def)

text \<open>
  C3, as the code has it. When no course id of the history is a name inherited from
  \<^verbatim>\<open>Object.prototype\<close>, \<^verbatim>\<open>mostAccessedCourses\<close> is the first 5 entries of the list of the distinct
  course ids of the history, each with its number of accesses, ranked by descending number of
  accesses; equally frequent course ids are in the order of \<^verbatim>\<open>Object.entries\<close>: those that
  are array indices first, by ascending numeric value, then the others by their first
  appearance in the history. Accesses to \<open>A, B, A, A, C, B\<close> rank \<open>A\<close> (3) before \<open>B\<close> (2)
  before \<open>C\<close> (1).
\<close>

theorem mostAccessedCourses_ranking:
  assumes "\<forall>a \<in> set (lessonAccessHistory p). \<not> inherited (la_courseId a)"
  shows "(\<exists>R. mostAccessedCourses (computeStatistics p) = take 5 R \<and>
            fst ` set R = set (courseIds p) \<and> distinct (map fst R) \<and>
            (\<forall>e \<in> set R. snd e = CNum (count_list (courseIds p) (fst e))) \<and>
            sorted_wrt (\<lambda>a b. rankedBefore (courseIds p) (fst a) (fst b)) R) \<and>
         length (mostAccessedCourses (computeStatistics p)) \<le> 5 \<and>
         (courseIds p = [A, B, A, A, C, B] \<and> distinct [A, B, C] \<longrightarrow>
            mostAccessedCourses (computeStatistics p) =
              [(A, CNum 3), (B, CNum 2), (C, CNum 1)])"
proof -
  from getTopItems_ranking [OF assms, of 5]
  obtain R where R: "mostAccessedCourses (computeStatistics p) = take 5 R"
    "fst ` set R = set (courseIds p)" "distinct (map fst R)"
    "\<forall>e \<in> set R. snd e = CNum (count_list (courseIds p) (fst e))"
    "sorted_wrt (\<lambda>a b. rankedBefore (courseIds p) (fst a) (fst b)) R"
    unfolding courseIds_def computeStatistics_def by auto
  have "mostAccessedCourses (computeStatistics p) = [(A, CNum 3), (B, CNum 2), (C, CNum 1)]"
    if "courseIds p = [A, B, A, A, C, B]" "distinct [A, B, C]"
    using ranking_of_three [OF that R(2-5)] R(1) by simp
  moreover have "length (mostAccessedCourses (computeStatistics p)) \<le> 5"
    by (simp add: R(1))
  ultimately show ?thesis
    using R by blast
qed

theorem mostAccessedCourses_ranking_witness:
  "mostAccessedCourses (computeStatistics sixAccesses) =
     [(''A'', CNum 3), (''B'', CNum 2), (''C'', CNum 1)]"
proof -
  have 1: "\<forall>a \<in> set (lessonAccessHistory sixAccesses). \<not> inherited (la_courseId a)"
    by (simp add: sixAccesses_def lesson_def not_inherited_ABC)
  have 2: "courseIds sixAccesses = [''A'', ''B'', ''A'', ''A'', ''C'', ''B''] \<and>
      distinct [''A'', ''B'', ''C'']"
    by (simp add: courseIds_def sixAccesses_def lesson_def)
  from mostAccessedCourses_ranking [OF 1, THEN conjunct2, THEN conjunct2, THEN mp, OF 2]
  show ?thesis .
qed

text \<open>
  C3 as stated fails: after one access to course \<^verbatim>\<open>"2"\<close> and then one to course \<^verbatim>\<open>"1"\<close> the two
  are tied, and \<^verbatim>\<open>"1"\<close> is ranked first although \<^verbatim>\<open>"2"\<close> appeared first.
\<close>

theorem first_appearance_tie_break_counterexample:
  "courseIds tiedAccesses = [''2'', ''1''] \<and>
   firstIndex (courseIds tiedAccesses) ''2'' < firstIndex (courseIds tiedAccesses) ''1'' \<and>
   mostAccessedCourses (computeStatistics tiedAccesses) = [(''1'', CNum 1), (''2'', CNum 1)]"
proof -
  have history: "lessonAccessHistory tiedAccesses =
      [lesson ''2'' ''s1'' ''ch1'', lesson ''1'' ''s1'' ''ch1'']"
    by (simp add: tiedAccesses_def)
  have "countFrequency [lesson ''2'' ''s1'' ''ch1'', lesson ''1'' ''s1'' ''ch1''] la_courseId =
      [(''2'', CNum 1), (''1'', CNum 1)]"
    by (simp add: countFrequency_def assign_def increment_def objectPrototype_def
        nativeFunction_def lesson_def)
  moreover have "objectEntries [(''2'', CNum 1), (''1'', CNum 1)] =
      [(''1'', CNum 1), (''2'', CNum 1)]"
    by (simp add: objectEntries_def arrayIndex_1_2)
  moreover have "arraySort byCountDescending [(''1'', CNum 1), (''2'', CNum 1)] =
      [(''1'', CNum 1), (''2'', CNum 1)]"
    by (simp add: byCountDescending_def comparatorResult_def)
  ultimately have "getTopItems (lessonAccessHistory tiedAccesses) la_courseId 5 =
      [(''1'', CNum 1), (''2'', CNum 1)]"
    by (simp add: getTopItems_def history)
  moreover have ids: "courseIds tiedAccesses = [''2'', ''1'']"
    by (simp add: courseIds_def history lesson_def)
  moreover have "firstIndex [''2'', ''1''] ''2'' < firstIndex [''2'', ''1''] ''1''"
    by (simp add: firstIndex_def)
  ultimately show ?thesis
    by (simp add: computeStatistics_def)
qed

end
